theory Spec2Isabelle
  imports
    Main
    "HOL-Library.AList"
    "HOL-Library.List_Lexorder"
    "HOL-Library.Multiset"
    "HOL-Library.Sublist"
begin

section \<open>Strings\<close>

text \<open>
  A JavaScript string is a sequence of UTF-16 code units, and the regular expressions of
  \<^verbatim>\<open>index.js\<close> (none of which has the \<^verbatim>\<open>u\<close> flag) work on code units. A code
  unit is modelled as a natural number, a string as a list of them. The default
  \<^verbatim>\<open>Array.prototype.sort\<close> compares strings code unit by code unit, which is the
  lexicographic order on lists.
\<close>

type_synonym jchar = nat
type_synonym jstring = "jchar list"

definition js :: "string \<Rightarrow> jstring" where
  "js s = map of_char s"

text \<open>The double quote, the single quote and the line break.\<close>

definition dquote :: jchar where
  "dquote = 0x22"

definition squote :: jchar where
  "squote = 0x27"

definition nl :: jstring where
  "nl = [0x0A]"

text \<open>The character class \<^verbatim>\<open>[\u4e00-\u9fa5]\<close> of \<^verbatim>\<open>zhReg\<close>.\<close>

definition is_zh :: "jchar \<Rightarrow> bool" where
  "is_zh c \<longleftrightarrow> 0x4e00 \<le> c \<and> c \<le> 0x9fa5"

text \<open>\<^verbatim>\<open>zhReg.test(s)\<close>: the pattern \<^verbatim>\<open>/[\u4e00-\u9fa5]+/\<close> has no \<^verbatim>\<open>g\<close> flag, so the
  test keeps no position between calls.\<close>

definition zhReg_test :: "jstring \<Rightarrow> bool" where
  "zhReg_test s = list_ex is_zh s"

text \<open>White space and line terminators: the class \<^verbatim>\<open>\s\<close>, which is also what
  \<^verbatim>\<open>String.prototype.trim\<close> strips.\<close>

definition is_space :: "jchar \<Rightarrow> bool" where
  "is_space c \<longleftrightarrow>
     c \<in> set [0x09, 0x0A, 0x0B, 0x0C, 0x0D, 0x20, 0xA0, 0x1680, 0x2028, 0x2029,
              0x202F, 0x205F, 0x3000, 0xFEFF]
     \<or> (0x2000 \<le> c \<and> c \<le> 0x200A)"

text \<open>The characters that \<^verbatim>\<open>.\<close> does not match.\<close>

definition is_line_terminator :: "jchar \<Rightarrow> bool" where
  "is_line_terminator c \<longleftrightarrow> c \<in> set [0x0A, 0x0D, 0x2028, 0x2029]"

definition trim :: "jstring \<Rightarrow> jstring" where
  "trim s = rev (dropWhile is_space (rev (dropWhile is_space s)))"

definition startsWith :: "jstring \<Rightarrow> jstring \<Rightarrow> bool" where
  "startsWith s p \<longleftrightarrow> take (length p) s = p"

fun includes_str :: "jstring \<Rightarrow> jstring \<Rightarrow> bool" where
  "includes_str [] p = (p = [])"
| "includes_str (c # cs) p = (startsWith (c # cs) p \<or> includes_str cs p)"

section \<open>Objects and the registry\<close>

text \<open>
  A plain object is the list of its own string-keyed properties in creation order.
  Assigning to an existing property keeps its place, assigning to a new one appends it
  (\<^const>\<open>AList.update\<close>). Reading a property that is not an own property continues in
  \<^verbatim>\<open>Object.prototype\<close>, whose members are all truthy (functions, and the object behind
  \<^verbatim>\<open>__proto__\<close>).
\<close>

type_synonym 'v jsobj = "(jstring \<times> 'v) list"

definition obj_set :: "'v jsobj \<Rightarrow> jstring \<Rightarrow> 'v \<Rightarrow> 'v jsobj" where
  "obj_set obj k v = AList.update k v obj"

definition object_prototype_keys :: "jstring list" where
  "object_prototype_keys = map js
     [''constructor'', ''__defineGetter__'', ''__defineSetter__'', ''hasOwnProperty'',
      ''__lookupGetter__'', ''__lookupSetter__'', ''isPrototypeOf'',
      ''propertyIsEnumerable'', ''toString'', ''valueOf'', ''__proto__'',
      ''toLocaleString'']"

definition inherited :: "jstring \<Rightarrow> bool" where
  "inherited k \<longleftrightarrow> k \<in> set object_prototype_keys"

text \<open>
  \<^verbatim>\<open>const localeMap = {}\<close>: namespace \<open>\<rightarrow>\<close> (text \<open>\<rightarrow>\<close> text).
  \<^verbatim>\<open>commonWords\<close> is the set of keys of \<^verbatim>\<open>common.json\<close>, read once when the module is
  loaded (empty when the file cannot be read); it is a parameter \<open>cw\<close> of every function
  that consults it.
\<close>

type_synonym registry = "(jstring jsobj) jsobj"

definition common :: jstring where
  "common = js ''common''"

text \<open>\<^verbatim>\<open>commonWords.has(text) ? "common" : moduleName\<close>\<close>

definition targetModule :: "jstring set \<Rightarrow> jstring \<Rightarrow> jstring \<Rightarrow> jstring" where
  "targetModule cw moduleName text = (if text \<in> cw then common else moduleName)"

text \<open>The truth value of \<^verbatim>\<open>localeMap[targetModule][text]\<close> for an own table: the stored
  text when there is one (the empty string is falsy), an inherited member otherwise.\<close>

definition truthy_entry :: "jstring jsobj \<Rightarrow> jstring \<Rightarrow> bool" where
  "truthy_entry tbl text =
     (case map_of tbl text of Some v \<Rightarrow> v \<noteq> [] | None \<Rightarrow> inherited text)"

definition table_add :: "jstring jsobj \<Rightarrow> jstring \<Rightarrow> jstring jsobj" where
  "table_add tbl text = (if truthy_entry tbl text then tbl else obj_set tbl text text)"

text \<open>
  \<^verbatim>\<open>addLocale(moduleName, text)\<close> on the registry. When \<^verbatim>\<open>targetModule\<close> is no own
  property but the name of a member of \<^verbatim>\<open>Object.prototype\<close>, the test
  \<^verbatim>\<open>!localeMap[targetModule]\<close> finds that member, no table is created, and the
  assignment lands on the member: the own properties of \<^verbatim>\<open>localeMap\<close> stay as they
  are. (The run's label is the constant \<^verbatim>\<open>"test"\<close>; a label \<^verbatim>\<open>__proto__\<close> would make
  the assignment change \<^verbatim>\<open>Object.prototype\<close> itself, which this model does not
  follow.)
\<close>

definition addLocaleMap :: "jstring set \<Rightarrow> registry \<Rightarrow> jstring \<Rightarrow> jstring \<Rightarrow> registry" where
  "addLocaleMap cw reg moduleName text =
     (let tm = targetModule cw moduleName text in
      case map_of reg tm of
        None \<Rightarrow> if inherited tm then reg else obj_set reg tm (table_add [] text)
      | Some tbl \<Rightarrow> obj_set reg tm (table_add tbl text))"

text \<open>The state of a run: the registry and the warnings written with
  \<^verbatim>\<open>console.warn\<close> (the progress lines of \<^verbatim>\<open>console.log\<close> are not recorded).
  The errors thrown in a run are the parser's \<^verbatim>\<open>SyntaxError\<close> and the
  \<^verbatim>\<open>TypeError\<close> of the checks that \<^verbatim>\<open>@babel/types\<close> makes on a node that is built
  or put into a tree.\<close>

datatype js_error = SyntaxError jstring | TypeError

datatype warning = ExpressionFailed jstring | ErrorObject js_error

record run_state =
  localeMap :: registry
  warnings :: "warning list"

definition addLocale :: "jstring set \<Rightarrow> jstring \<Rightarrow> jstring \<Rightarrow> run_state \<Rightarrow> run_state" where
  "addLocale cw moduleName text st =
     st\<lparr>localeMap := addLocaleMap cw (localeMap st) moduleName text\<rparr>"

text \<open>The translation key \<^verbatim>\<open>`${targetModule}.${text}`\<close>, computed the same way in
  \<^verbatim>\<open>getTCallExpression\<close> and in every text pass.\<close>

definition translation_key :: "jstring set \<Rightarrow> jstring \<Rightarrow> jstring \<Rightarrow> jstring" where
  "translation_key cw moduleName text = targetModule cw moduleName text @ js ''.'' @ text"

section \<open>Writing the dictionaries\<close>

text \<open>
  \<^verbatim>\<open>Object.keys\<close>, \<^verbatim>\<open>Object.entries\<close> and \<^verbatim>\<open>JSON.stringify\<close> enumerate the own
  properties of an object with the array indices first (canonical decimal numerals below
  \<open>2\<^sup>3\<^sup>2 - 1\<close>, in ascending numeric order) and the other keys after them in creation
  order.
\<close>

definition is_digit :: "jchar \<Rightarrow> bool" where
  "is_digit c \<longleftrightarrow> 48 \<le> c \<and> c \<le> 57"

definition digits_value :: "jstring \<Rightarrow> nat" where
  "digits_value s = foldl (\<lambda>a c. 10 * a + (c - 48)) 0 s"

definition is_array_index :: "jstring \<Rightarrow> bool" where
  "is_array_index s \<longleftrightarrow>
     s \<noteq> [] \<and> list_all is_digit s \<and> (length s = 1 \<or> hd s \<noteq> 48)
     \<and> digits_value s < 2 ^ 32 - 1"

definition own_entries :: "'v jsobj \<Rightarrow> 'v jsobj" where
  "own_entries obj =
     sort_key (\<lambda>p. digits_value (fst p)) (filter (\<lambda>p. is_array_index (fst p)) obj)
     @ filter (\<lambda>p. \<not> is_array_index (fst p)) obj"

definition own_keys :: "'v jsobj \<Rightarrow> jstring list" where
  "own_keys obj = map fst (own_entries obj)"

text \<open>
  \<^verbatim>\<open>Object.keys(map).sort().reduce((acc, key) => { acc[key] = map[key]; return acc }, {})\<close>.
  Every key comes from \<^verbatim>\<open>Object.keys(map)\<close>, so \<^verbatim>\<open>map[key]\<close> is an own property.
\<close>

definition sorted_table :: "jstring jsobj \<Rightarrow> jstring jsobj" where
  "sorted_table tbl =
     fold (\<lambda>key acc. case map_of tbl key of Some v \<Rightarrow> obj_set acc key v | None \<Rightarrow> acc)
       (sort (own_keys tbl)) []"

text \<open>
  The document \<^verbatim>\<open>JSON.stringify({ [moduleName]: sorted }, null, 2)\<close>: an object with the
  single key \<^verbatim>\<open>moduleName\<close>, whose value is printed property by property in enumeration
  order. The document is kept as that structure, not as its text.
\<close>

datatype document = Document (top_key: jstring) (table: "(jstring \<times> jstring) list")

definition stringify :: "jstring \<Rightarrow> jstring jsobj \<Rightarrow> document" where
  "stringify moduleName sorted_obj = Document moduleName (own_entries sorted_obj)"

text \<open>\<^verbatim>\<open>writeLocaleFiles\<close>: the files written into the output directory, as pairs of file
  name and document, in the order of the loop over \<^verbatim>\<open>Object.entries(localeMap)\<close>.\<close>

definition writeLocaleFiles :: "registry \<Rightarrow> (jstring \<times> document) list" where
  "writeLocaleFiles reg =
     map (\<lambda>(moduleName, tbl). (moduleName @ js ''.json'', stringify moduleName (sorted_table tbl)))
       (own_entries reg)"

section \<open>Global regular-expression replacement\<close>

text \<open>
  Every pattern of \<^verbatim>\<open>index.js\<close> is matched here by a function that looks at the text from
  one position on and returns the captured groups with the text left after the match.
  The patterns need no backtracking: each greedy run is followed by a character outside
  its class. \<^verbatim>\<open>String.prototype.replace\<close> with a \<^verbatim>\<open>g\<close> pattern and a callback takes
  the leftmost match, appends what the callback returns, and goes on after the match;
  where nothing matches, the character is copied. The callbacks change the registry, so
  the state is passed along from left to right. A match of these patterns is at least one
  character long; the test \<open>length rest \<le> length cs\<close> says so where the recursion needs it,
  and it holds for every matcher of this theory (section Scanning).
\<close>

function greplace ::
  "(jstring \<Rightarrow> ('m \<times> jstring) option) \<Rightarrow> ('m \<Rightarrow> 's \<Rightarrow> jstring \<times> 's) \<Rightarrow> jstring \<Rightarrow> 's \<Rightarrow> jstring \<times> 's"
where
  "greplace mt f [] st = ([], st)"
| "greplace mt f (c # cs) st =
     (case mt (c # cs) of
        None \<Rightarrow> (case greplace mt f cs st of (r, st') \<Rightarrow> (c # r, st'))
      | Some (m, rest) \<Rightarrow>
          if length rest \<le> length cs
          then (case f m st of (out, st1) \<Rightarrow>
                  (case greplace mt f rest st1 of (r, st2) \<Rightarrow> (out @ r, st2)))
          else (case greplace mt f cs st of (r, st') \<Rightarrow> (c # r, st')))"
  by pat_completeness auto
termination
  by (relation "measure (\<lambda>(mt, f, s, st). length s)") auto

text \<open>\<^verbatim>\<open>String.prototype.split\<close> with a pattern that is one capture group: the pieces
  between the matches, with the captured matches between them.\<close>

function gsplit :: "(jstring \<Rightarrow> (jstring \<times> jstring) option) \<Rightarrow> jstring \<Rightarrow> jstring \<Rightarrow> jstring list" where
  "gsplit mt cur [] = [cur]"
| "gsplit mt cur (c # cs) =
     (case mt (c # cs) of
        None \<Rightarrow> gsplit mt (cur @ [c]) cs
      | Some (cap, rest) \<Rightarrow>
          if length rest \<le> length cs then cur # cap # gsplit mt [] rest
          else gsplit mt (cur @ [c]) cs)"
  by pat_completeness auto
termination
  by (relation "measure (\<lambda>(mt, cur, s). length s)") auto

text \<open>\<^verbatim>\<open>.filter(Boolean)\<close> on a list of strings drops the empty ones.\<close>

definition filter_Boolean :: "jstring list \<Rightarrow> jstring list" where
  "filter_Boolean parts = filter (\<lambda>p. p \<noteq> []) parts"

text \<open>\<^verbatim>\<open>re.test(s)\<close> for a pattern without anchors: a match at some position.\<close>

fun regex_test :: "(jstring \<Rightarrow> bool) \<Rightarrow> jstring \<Rightarrow> bool" where
  "regex_test p [] = p []"
| "regex_test p (c # cs) = (p (c # cs) \<or> regex_test p cs)"

text \<open>\<^verbatim>\<open>/[\u4e00-\u9fa5]+/g\<close>: a maximal run of target characters.\<close>

definition match_zh_run :: "jstring \<Rightarrow> (jstring \<times> jstring) option" where
  "match_zh_run s =
     (case s of
        [] \<Rightarrow> None
      | c # cs \<Rightarrow> if is_zh c then Some (takeWhile is_zh s, dropWhile is_zh s) else None)"

text \<open>\<^verbatim>\<open>text.split(/([\u4e00-\u9fa5]+)/).filter(Boolean)\<close>\<close>

definition split_zh :: "jstring \<Rightarrow> jstring list" where
  "split_zh text = filter_Boolean (gsplit match_zh_run [] text)"

section \<open>The syntax tree\<close>

text \<open>
  The parser and the generator are Babel's and are parameters of the model. A tree is
  what the visitors can see of it: string literals, identifiers, JSX text, template
  literals (with the flag \<^verbatim>\<open>__i18nTransformed\<close>), and any other node as its type with
  its children in traversal order; a call is \<open>Node ''CallExpression'' (callee # arguments)\<close>.
  A parsed file is the list \<^verbatim>\<open>ast.program.body\<close> (the \<^verbatim>\<open>File\<close> and
  \<^verbatim>\<open>Program\<close> nodes and the directives hold nothing a visitor matches).

  \<^verbatim>\<open>path.replaceWith(node)\<close> checks the new node against the field of the parent that
  holds the old one (\<^verbatim>\<open>validate(parent, key, node)\<close> of \<^verbatim>\<open>@babel/types\<close>) and throws a
  \<^verbatim>\<open>TypeError\<close> when the field does not take it: a call in the place of an import source
  or of a property key that is not computed. Which fields take what is Babel's table and is
  the parameter \<open>validate\<close>: the type of the parent, the place of the child among its
  children and the new node; \<open>False\<close> where the check throws. For a child that the parent
  holds in a list (an argument of a call, an expression of a template literal) Babel
  looks up no field and the check passes.
\<close>

datatype quasi = TemplateElement (raw: jstring) (cooked: jstring) (tail: bool)

datatype node =
    StringLiteral jstring
  | Identifier jstring
  | JSXText jstring
  | TemplateLiteral "quasi list" "node list" bool
  | Node string "node list"

record externals =
  parse_binding :: "jstring \<Rightarrow> js_error + node list"
  parse_script :: "jstring \<Rightarrow> js_error + node list"
  generate_binding :: "node \<Rightarrow> jstring"
  generate_script :: "node list \<Rightarrow> jstring \<Rightarrow> jstring"
  validate :: "string \<Rightarrow> nat \<Rightarrow> node \<Rightarrow> bool"

definition getTCallExpression :: "jstring set \<Rightarrow> jstring \<Rightarrow> jstring \<Rightarrow> node" where
  "getTCallExpression cw text moduleName =
     Node ''CallExpression''
       [Identifier (js ''$t''), StringLiteral (translation_key cw moduleName text)]"

text \<open>The parent of a child is a call of \<^verbatim>\<open>$t\<close>:
  \<^verbatim>\<open>path.parentPath.isCallExpression() && path.parent.callee.name === "$t"\<close>.\<close>

definition is_t_call :: "string \<Rightarrow> node list \<Rightarrow> bool" where
  "is_t_call kind children \<longleftrightarrow>
     kind = ''CallExpression'' \<and>
     (case children of Identifier name # _ \<Rightarrow> name = js ''$t'' | _ \<Rightarrow> False)"

section \<open>The script rewriter\<close>

subsection \<open>The template literal visitor\<close>

text \<open>
  The body of the \<^verbatim>\<open>TemplateLiteral\<close> visitor after its two guards. The loop state is
  \<^verbatim>\<open>newQuasis\<close>, \<^verbatim>\<open>newExpressions\<close>, \<^verbatim>\<open>pendingQuasi\<close> and the run state. The
  function is polymorphic in what an expression is (\<open>mk\<close> builds the translation call of
  a segment), so that the traversal below can tell the original expressions from the
  calls it puts in.
\<close>

definition emptyQuasi :: quasi where
  "emptyQuasi = TemplateElement [] [] False"

type_synonym 'e tl_state = "quasi list \<times> 'e list \<times> jstring \<times> run_state"

definition flushPendingQuasi :: "'e tl_state \<Rightarrow> 'e tl_state" where
  "flushPendingQuasi acc =
     (case acc of (newQuasis, newExpressions, pendingQuasi, st) \<Rightarrow>
        if pendingQuasi \<noteq> []
        then (newQuasis @ [TemplateElement pendingQuasi pendingQuasi False], newExpressions, [], st)
        else acc)"

definition tl_segment ::
  "jstring set \<Rightarrow> jstring \<Rightarrow> (jstring \<Rightarrow> 'e) \<Rightarrow> jstring \<Rightarrow> 'e tl_state \<Rightarrow> 'e tl_state" where
  "tl_segment cw moduleName mk segment acc =
     (if zhReg_test segment
      then (case flushPendingQuasi acc of (newQuasis, newExpressions, pendingQuasi, st) \<Rightarrow>
              (newQuasis @ [emptyQuasi], newExpressions @ [mk segment], pendingQuasi,
               addLocale cw moduleName segment st))
      else (case acc of (newQuasis, newExpressions, pendingQuasi, st) \<Rightarrow>
              (newQuasis, newExpressions, pendingQuasi @ segment, st)))"

text \<open>The \<^verbatim>\<open>for\<close> loop over \<^verbatim>\<open>quasis\<close>; \<^verbatim>\<open>i < expressions.length\<close> holds as long
  as the list of expressions not yet copied is not empty.\<close>

fun tl_loop ::
  "jstring set \<Rightarrow> jstring \<Rightarrow> (jstring \<Rightarrow> 'e) \<Rightarrow> quasi list \<Rightarrow> 'e list \<Rightarrow> 'e tl_state \<Rightarrow> 'e tl_state" where
  "tl_loop cw moduleName mk [] expressions acc = acc"
| "tl_loop cw moduleName mk (q # quasis) expressions acc =
     (case flushPendingQuasi (fold (tl_segment cw moduleName mk) (split_zh (raw q)) acc) of
        (newQuasis, newExpressions, pendingQuasi, st) \<Rightarrow>
          (case expressions of
             [] \<Rightarrow> tl_loop cw moduleName mk quasis [] (newQuasis, newExpressions, pendingQuasi, st)
           | e # es \<Rightarrow>
               tl_loop cw moduleName mk quasis es
                 (newQuasis @ [emptyQuasi], newExpressions @ [e], pendingQuasi, st)))"

text \<open>The last element is rebuilt as the tail, then empty elements are pushed while
  \<^verbatim>\<open>newQuasis.length <= newExpressions.length\<close>.\<close>

definition mark_tail :: "quasi list \<Rightarrow> quasi list" where
  "mark_tail newQuasis =
     (if newQuasis = [] then []
      else butlast newQuasis
           @ [TemplateElement (raw (last newQuasis)) (cooked (last newQuasis)) True])"

definition pad_quasis :: "quasi list \<Rightarrow> nat \<Rightarrow> quasi list" where
  "pad_quasis newQuasis n = newQuasis @ replicate (Suc n - length newQuasis) emptyQuasi"

definition rewriteTemplateLiteral ::
  "jstring set \<Rightarrow> jstring \<Rightarrow> (jstring \<Rightarrow> 'e) \<Rightarrow> quasi list \<Rightarrow> 'e list \<Rightarrow> run_state
   \<Rightarrow> quasi list \<times> 'e list \<times> run_state" where
  "rewriteTemplateLiteral cw moduleName mk quasis expressions st =
     (case tl_loop cw moduleName mk quasis expressions ([], [], [], st) of
        (newQuasis, newExpressions, pendingQuasi, st') \<Rightarrow>
          (pad_quasis (mark_tail newQuasis) (length newExpressions), newExpressions, st'))"

subsection \<open>The JSX text visitor\<close>

definition jsx_part :: "jstring set \<Rightarrow> jstring \<Rightarrow> jstring \<Rightarrow> node list \<times> run_state \<Rightarrow> node list \<times> run_state" where
  "jsx_part cw moduleName part acc =
     (case acc of (nodes, st) \<Rightarrow>
        if zhReg_test part
        then (let text = trim part in
              (nodes @ [Node ''JSXExpressionContainer'' [getTCallExpression cw text moduleName]],
               addLocale cw moduleName text st))
        else (nodes @ [JSXText part], st))"

definition visit_JSXText :: "jstring set \<Rightarrow> jstring \<Rightarrow> jstring \<Rightarrow> run_state \<Rightarrow> node list \<times> run_state" where
  "visit_JSXText cw moduleName value st =
     (if \<not> zhReg_test value then ([JSXText value], st)
      else fold (jsx_part cw moduleName) (split_zh value) ([], st))"

subsection \<open>The string literal visitor\<close>

text \<open>The same rule in \<^verbatim>\<open>transformScript\<close> and in \<^verbatim>\<open>transformBindingExpression\<close>:
  a literal that is an argument of a call of \<^verbatim>\<open>$t\<close> is left alone. The text is
  recorded first; then \<^verbatim>\<open>path.replaceWith\<close> puts the call in, or throws when the
  field that holds the literal does not take a call.\<close>

definition visit_StringLiteral ::
  "externals \<Rightarrow> jstring set \<Rightarrow> jstring \<Rightarrow> string \<Rightarrow> nat \<Rightarrow> bool \<Rightarrow> jstring \<Rightarrow> run_state
   \<Rightarrow> (js_error + node) \<times> run_state" where
  "visit_StringLiteral ext cw moduleName parent key isInsideTCall value st =
     (if \<not> isInsideTCall \<and> zhReg_test value
      then (let text = trim value;
                call = getTCallExpression cw text moduleName
            in (if validate ext parent key call then Inr call else Inl TypeError,
                addLocale cw moduleName text st))
      else (Inr (StringLiteral value), st))"

subsection \<open>Traversal\<close>

text \<open>
  \<^verbatim>\<open>traverse.default(ast, visitors)\<close>, depth first and left to right. \<open>full\<close> selects the
  visitors of \<^verbatim>\<open>transformScript\<close> (all three); \<^verbatim>\<open>transformBindingExpression\<close> has the
  string literal visitor only. A node a visitor has put in is visited too: the argument
  of a new call of \<^verbatim>\<open>$t\<close> is skipped by the guard of the string literal visitor, a new
  piece of JSX text has no target character, and a new template literal carries the flag,
  so only its children are walked, of which the calls stay as they are and the original
  expressions are visited in their order. \<^verbatim>\<open>replaceWithMultiple\<close> puts several nodes
  in the place of one, so every node yields a list.

  A visitor that throws ends the traversal: the result is the error, with the state as it
  is at that moment (what has been recorded stays in \<^verbatim>\<open>localeMap\<close>). The builder
  \<^verbatim>\<open>t.templateLiteral(newQuasis, newExpressions)\<close> checks its two lists and throws a
  \<^verbatim>\<open>TypeError\<close> unless there is exactly one more quasi than there are expressions. The
  new literal then takes the place of a template literal, which every field that held
  the old one takes, and \<^verbatim>\<open>replaceWithMultiple\<close> splices its nodes into the list of
  children without that check. \<open>parent\<close> and \<open>key\<close> say where the node is: the type
  of its parent and its place among the children (\<open>''Program''\<close> for the statements of
  the file, the place among the expressions for a child of a template literal).
\<close>

fun traverse_node ::
  "bool \<Rightarrow> externals \<Rightarrow> jstring set \<Rightarrow> jstring \<Rightarrow> string \<Rightarrow> nat \<Rightarrow> bool \<Rightarrow> node \<Rightarrow> run_state
   \<Rightarrow> (js_error + node list) \<times> run_state"
and traverse_list ::
  "bool \<Rightarrow> externals \<Rightarrow> jstring set \<Rightarrow> jstring \<Rightarrow> string \<Rightarrow> nat \<Rightarrow> bool \<Rightarrow> node list \<Rightarrow> run_state
   \<Rightarrow> (js_error + node list list) \<times> run_state"
where
  "traverse_node full ext cw moduleName parent key inT (StringLiteral value) st =
     (case visit_StringLiteral ext cw moduleName parent key inT value st of
        (Inl err, st') \<Rightarrow> (Inl err, st')
      | (Inr n, st') \<Rightarrow> (Inr [n], st'))"
| "traverse_node full ext cw moduleName parent key inT (Identifier name) st =
     (Inr [Identifier name], st)"
| "traverse_node full ext cw moduleName parent key inT (JSXText value) st =
     (if full then (case visit_JSXText cw moduleName value st of (nodes, st') \<Rightarrow> (Inr nodes, st'))
      else (Inr [JSXText value], st))"
| "traverse_node full ext cw moduleName parent key inT (TemplateLiteral quasis expressions transformed) st =
     (if full \<and> \<not> transformed \<and> list_ex (\<lambda>q. zhReg_test (raw q)) quasis
      then (case rewriteTemplateLiteral cw moduleName
                   (\<lambda>segment. Inl (getTCallExpression cw segment moduleName))
                   quasis (map Inr [0..<length expressions]) st of
              (newQuasis, newExpressions, st1) \<Rightarrow>
                if length newQuasis \<noteq> length newExpressions + 1 then (Inl TypeError, st1)
                else (case traverse_list full ext cw moduleName ''TemplateLiteral'' 0 False
                             expressions st1 of
                        (Inl err, st2) \<Rightarrow> (Inl err, st2)
                      | (Inr visited, st2) \<Rightarrow>
                          (Inr [TemplateLiteral newQuasis
                                  (concat (map (\<lambda>e. case e of Inl call \<Rightarrow> [call]
                                                         | Inr i \<Rightarrow> visited ! i)
                                             newExpressions))
                                  True], st2)))
      else (case traverse_list full ext cw moduleName ''TemplateLiteral'' 0 False expressions st of
              (Inl err, st1) \<Rightarrow> (Inl err, st1)
            | (Inr visited, st1) \<Rightarrow>
                (Inr [TemplateLiteral quasis (concat visited) transformed], st1)))"
| "traverse_node full ext cw moduleName parent key inT (Node kind children) st =
     (case traverse_list full ext cw moduleName kind 0 (is_t_call kind children) children st of
        (Inl err, st1) \<Rightarrow> (Inl err, st1)
      | (Inr visited, st1) \<Rightarrow> (Inr [Node kind (concat visited)], st1))"
| "traverse_list full ext cw moduleName parent key inT [] st = (Inr [], st)"
| "traverse_list full ext cw moduleName parent key inT (n # ns) st =
     (case traverse_node full ext cw moduleName parent key inT n st of
        (Inl err, st1) \<Rightarrow> (Inl err, st1)
      | (Inr r, st1) \<Rightarrow>
          (case traverse_list full ext cw moduleName parent (Suc key) inT ns st1 of
             (Inl err, st2) \<Rightarrow> (Inl err, st2)
           | (Inr rs, st2) \<Rightarrow> (Inr (r # rs), st2)))"

definition traverse ::
  "bool \<Rightarrow> externals \<Rightarrow> jstring set \<Rightarrow> jstring \<Rightarrow> node list \<Rightarrow> run_state
   \<Rightarrow> (js_error + node list) \<times> run_state" where
  "traverse full ext cw moduleName body st =
     (case traverse_list full ext cw moduleName ''Program'' 0 False body st of
        (Inl err, st') \<Rightarrow> (Inl err, st')
      | (Inr visited, st') \<Rightarrow> (Inr (concat visited), st'))"

subsection \<open>\<^verbatim>\<open>transformScript\<close>\<close>

text \<open>A script that does not parse makes \<^verbatim>\<open>babelParser.parse\<close> throw, and a visitor may
  throw; nothing catches either in \<^verbatim>\<open>transformScript\<close>.\<close>

definition transformScript ::
  "externals \<Rightarrow> jstring set \<Rightarrow> jstring \<Rightarrow> jstring \<Rightarrow> run_state \<Rightarrow> (js_error + jstring) \<times> run_state" where
  "transformScript ext cw script moduleName st =
     (case parse_script ext script of
        Inl err \<Rightarrow> (Inl err, st)
      | Inr ast \<Rightarrow>
          (case traverse True ext cw moduleName ast st of
             (Inl err, st') \<Rightarrow> (Inl err, st')
           | (Inr ast', st') \<Rightarrow> (Inr (generate_script ext ast' script), st')))"

section \<open>The binding expression rewriter\<close>

text \<open>\<^verbatim>\<open>/([\u4e00-\u9fa5\uff1a:\uff0c,\u3002\uff01!]+)/g\<close>: the target characters and the full-width
  and ASCII colon, comma and exclamation mark and the ideographic full stop.\<close>

definition is_binding_char :: "jchar \<Rightarrow> bool" where
  "is_binding_char c \<longleftrightarrow> is_zh c \<or> c \<in> set [0xFF1A, 0x3A, 0xFF0C, 0x2C, 0x3002, 0xFF01, 0x21]"

definition match_binding_run :: "jstring \<Rightarrow> (jstring \<times> jstring) option" where
  "match_binding_run s =
     (case s of
        [] \<Rightarrow> None
      | c # cs \<Rightarrow>
          if is_binding_char c then Some (takeWhile is_binding_char s, dropWhile is_binding_char s)
          else None)"

definition binding_run_callback ::
  "jstring set \<Rightarrow> jstring \<Rightarrow> jstring \<Rightarrow> run_state \<Rightarrow> jstring \<times> run_state" where
  "binding_run_callback cw moduleName zhText st =
     (let text = trim zhText in
      if text = [] then (zhText, st)
      else (js ''${$t('' @ [squote] @ translation_key cw moduleName text @ [squote] @ js '')}'',
            addLocale cw moduleName text st))"

text \<open>\<^verbatim>\<open>ast.program.body[0]\<close> when it is a \<^verbatim>\<open>VariableDeclaration\<close> whose first
  declarator is a \<^verbatim>\<open>VariableDeclarator\<close>: its \<^verbatim>\<open>init\<close>, the child after \<^verbatim>\<open>id\<close>
  (\<open>None\<close> inside when the declarator has no initialiser).\<close>

definition declarator_init :: "node list \<Rightarrow> node option option" where
  "declarator_init body =
     (case body of
        Node kind (Node kind' children # _) # _ \<Rightarrow>
          if kind = ''VariableDeclaration'' \<and> kind' = ''VariableDeclarator''
          then Some (case children of _ # init # _ \<Rightarrow> Some init | _ \<Rightarrow> None)
          else None
      | _ \<Rightarrow> None)"

text \<open>
  \<^verbatim>\<open>transformBindingExpression(expression, moduleName)\<close>. The \<^verbatim>\<open>try\<close> block holds
  the parser, the traversal and the generator; the \<^verbatim>\<open>catch\<close> branch writes two warnings
  and returns the fragment, whether the parser has thrown or a visitor. The generator
  prints nothing for a missing node.
\<close>

definition transformBindingExpression ::
  "externals \<Rightarrow> jstring set \<Rightarrow> jstring \<Rightarrow> jstring \<Rightarrow> run_state \<Rightarrow> jstring \<times> run_state" where
  "transformBindingExpression ext cw expression moduleName st =
     (let fakeCode = js ''const __temp = '' @ expression @ js '';'' in
      case parse_binding ext fakeCode of
        Inl err \<Rightarrow>
          (expression, st\<lparr>warnings := warnings st @ [ExpressionFailed expression, ErrorObject err]\<rparr>)
      | Inr ast \<Rightarrow>
          (case traverse False ext cw moduleName ast st of
             (Inl err, st1) \<Rightarrow>
               (expression,
                st1\<lparr>warnings := warnings st1 @ [ExpressionFailed expression, ErrorObject err]\<rparr>)
           | (Inr ast', st1) \<Rightarrow>
               (case declarator_init ast' of
                  None \<Rightarrow> (expression, st1)
                | Some init \<Rightarrow>
                    (let code = (case init of None \<Rightarrow> [] | Some expr \<Rightarrow> generate_binding ext expr) in
                     if includes_str code (js ''$t('') then (code, st1)
                     else greplace match_binding_run (binding_run_callback cw moduleName) code st1))))"

section \<open>The markup rewriter\<close>

subsection \<open>Attributes\<close>

definition is_attr_name_char :: "jchar \<Rightarrow> bool" where
  "is_attr_name_char c \<longleftrightarrow>
     (0x61 \<le> c \<and> c \<le> 0x7A) \<or> (0x41 \<le> c \<and> c \<le> 0x5A) \<or> (0x30 \<le> c \<and> c \<le> 0x39)
     \<or> c = 0x2D \<or> c = 0x5F \<or> c = 0x3A"

text \<open>\<^verbatim>\<open>/(\s)([a-zA-Z0-9\-_:]+)="([^"]*[\u4e00-\u9fa5]+[^"]*)"/g\<close>: a white space
  character, the longest run of name characters, \<^verbatim>\<open>="\<close>, and the text up to the next
  double quote, which has a target character in it.\<close>

definition match_attr :: "jstring \<Rightarrow> ((jchar \<times> jstring \<times> jstring) \<times> jstring) option" where
  "match_attr s =
     (case s of
        [] \<Rightarrow> None
      | prefixSpace # r \<Rightarrow>
          if \<not> is_space prefixSpace then None
          else (let attrName = takeWhile is_attr_name_char r;
                    r1 = dropWhile is_attr_name_char r
                in if attrName = [] \<or> \<not> startsWith r1 [0x3D, dquote] then None
                   else (let attrValue = takeWhile (\<lambda>c. c \<noteq> dquote) (drop 2 r1);
                             r2 = dropWhile (\<lambda>c. c \<noteq> dquote) (drop 2 r1)
                         in if r2 = [] \<or> \<not> zhReg_test attrValue then None
                            else Some ((prefixSpace, attrName, attrValue), tl r2))))"

text \<open>\<^verbatim>\<open>/\$t\(['"][^'"]+['"]\)/\<close> at one position.\<close>

definition is_quote :: "jchar \<Rightarrow> bool" where
  "is_quote c \<longleftrightarrow> c = squote \<or> c = dquote"

definition match_t_call :: "jstring \<Rightarrow> bool" where
  "match_t_call s \<longleftrightarrow>
     startsWith s (js ''$t('') \<and>
     (case drop 3 s of
        [] \<Rightarrow> False
      | q # r \<Rightarrow>
          is_quote q \<and> takeWhile (\<lambda>c. \<not> is_quote c) r \<noteq> [] \<and>
          (case dropWhile (\<lambda>c. \<not> is_quote c) r of
             q' # c # _ \<Rightarrow> c = 0x29
           | _ \<Rightarrow> False))"

definition isDynamic :: "jstring \<Rightarrow> bool" where
  "isDynamic attrName \<longleftrightarrow> startsWith attrName (js '':'') \<or> startsWith attrName (js ''v-bind'')"

definition attr_callback ::
  "externals \<Rightarrow> jstring set \<Rightarrow> jstring \<Rightarrow> jchar \<times> jstring \<times> jstring \<Rightarrow> run_state
   \<Rightarrow> jstring \<times> run_state" where
  "attr_callback ext cw moduleName m st =
     (case m of (prefixSpace, attrName, attrValue) \<Rightarrow>
        (let match = prefixSpace # attrName @ [0x3D, dquote] @ attrValue @ [dquote];
             text = trim attrValue
         in if text = [] then (match, st)
            else if isDynamic attrName then
              (if regex_test match_t_call attrValue then (match, st)
               else (case transformBindingExpression ext cw attrValue moduleName st of
                       (newExpr, st') \<Rightarrow>
                         (prefixSpace # attrName @ [0x3D, dquote] @ newExpr @ [dquote], st')))
            else (prefixSpace # 0x3A # attrName @ [0x3D, dquote] @ js ''$t('' @ [squote]
                    @ translation_key cw moduleName text @ [squote] @ js '')'' @ [dquote],
                  addLocale cw moduleName text st)))"

definition attribute_pass ::
  "externals \<Rightarrow> jstring set \<Rightarrow> jstring \<Rightarrow> jstring \<Rightarrow> run_state \<Rightarrow> jstring \<times> run_state" where
  "attribute_pass ext cw moduleName template st =
     greplace match_attr (attr_callback ext cw moduleName) template st"

subsection \<open>Text between tags\<close>

text \<open>\<^verbatim>\<open>/>([^<]*)</g\<close>\<close>

definition match_tag_text :: "jstring \<Rightarrow> (jstring \<times> jstring) option" where
  "match_tag_text s =
     (case s of
        [] \<Rightarrow> None
      | c # r \<Rightarrow>
          if c \<noteq> 0x3E then None
          else (let inner = takeWhile (\<lambda>c. c \<noteq> 0x3C) r; r1 = dropWhile (\<lambda>c. c \<noteq> 0x3C) r
                in if r1 = [] then None else Some (inner, tl r1)))"

text \<open>\<^verbatim>\<open>/<!--.*-->/\<close> at one position.\<close>

definition match_comment :: "jstring \<Rightarrow> bool" where
  "match_comment s \<longleftrightarrow>
     startsWith s (js ''<!--'') \<and>
     includes_str (takeWhile (\<lambda>c. \<not> is_line_terminator c) (drop 4 s)) (js ''-->'')"

text \<open>\<^verbatim>\<open>/({{.*?}})/g\<close>: from \<^verbatim>\<open>{{\<close> to the first \<^verbatim>\<open>}}\<close> after it, with no line
  terminator in between.\<close>

fun lazy_until_close :: "jstring \<Rightarrow> (jstring \<times> jstring) option" where
  "lazy_until_close [] = None"
| "lazy_until_close (c # cs) =
     (if startsWith (c # cs) (js ''}}'') then Some ([], drop 1 cs)
      else if is_line_terminator c then None
      else (case lazy_until_close cs of
              None \<Rightarrow> None
            | Some (body, rest) \<Rightarrow> Some (c # body, rest)))"

definition match_mustache :: "jstring \<Rightarrow> (jstring \<times> jstring) option" where
  "match_mustache s =
     (if startsWith s (js ''{{'') then
        (case lazy_until_close (drop 2 s) of
           None \<Rightarrow> None
         | Some (body, rest) \<Rightarrow> Some (js ''{{'' @ body @ js ''}}'', rest))
      else None)"

definition text_run_callback ::
  "jstring set \<Rightarrow> jstring \<Rightarrow> jstring \<Rightarrow> run_state \<Rightarrow> jstring \<times> run_state" where
  "text_run_callback cw moduleName zh st =
     (js ''{{ $t('' @ [squote] @ translation_key cw moduleName zh @ [squote] @ js '') }}'',
      addLocale cw moduleName zh st)"

definition text_part :: "jstring set \<Rightarrow> jstring \<Rightarrow> jstring \<Rightarrow> jstring \<times> run_state \<Rightarrow> jstring \<times> run_state" where
  "text_part cw moduleName part acc =
     (case acc of (done, st) \<Rightarrow>
        if startsWith part (js ''{{'') then (done @ part, st)
        else (case greplace match_zh_run (text_run_callback cw moduleName) part st of
                (out, st') \<Rightarrow> (done @ out, st')))"

definition tag_text_callback ::
  "jstring set \<Rightarrow> jstring \<Rightarrow> jstring \<Rightarrow> run_state \<Rightarrow> jstring \<times> run_state" where
  "tag_text_callback cw moduleName inner st =
     (if regex_test match_comment inner \<or> \<not> zhReg_test inner \<or> list_all is_space inner
         \<or> includes_str inner (js ''$t('')
      then (0x3E # inner @ [0x3C], st)
      else (let parts = filter_Boolean (gsplit match_mustache [] inner) in
            case fold (text_part cw moduleName) parts ([], st) of
              (transformed, st') \<Rightarrow> (0x3E # transformed @ [0x3C], st')))"

definition tag_text_pass :: "jstring set \<Rightarrow> jstring \<Rightarrow> jstring \<Rightarrow> run_state \<Rightarrow> jstring \<times> run_state" where
  "tag_text_pass cw moduleName template st =
     greplace match_tag_text (tag_text_callback cw moduleName) template st"

subsection \<open>Interpolations\<close>

text \<open>\<^verbatim>\<open>/{{([^{}]*)}}/g\<close>\<close>

definition is_brace :: "jchar \<Rightarrow> bool" where
  "is_brace c \<longleftrightarrow> c = 0x7B \<or> c = 0x7D"

definition match_interpolation :: "jstring \<Rightarrow> (jstring \<times> jstring) option" where
  "match_interpolation s =
     (if startsWith s (js ''{{'') then
        (let expression = takeWhile (\<lambda>c. \<not> is_brace c) (drop 2 s);
             r = dropWhile (\<lambda>c. \<not> is_brace c) (drop 2 s)
         in if startsWith r (js ''}}'') then Some (expression, drop 2 r) else None)
      else None)"

text \<open>\<^verbatim>\<open>/(['"])([\u4e00-\u9fa5][^'"]*)\1/g\<close>: a quote, a target character, the text
  up to the next quote of either kind, which has to be the opening one again.\<close>

definition match_quoted :: "jstring \<Rightarrow> (jstring \<times> jstring) option" where
  "match_quoted s =
     (case s of
        quote # z # r \<Rightarrow>
          if is_quote quote \<and> is_zh z then
            (case dropWhile (\<lambda>c. \<not> is_quote c) r of
               [] \<Rightarrow> None
             | q' # rest \<Rightarrow>
                 if q' = quote then Some (z # takeWhile (\<lambda>c. \<not> is_quote c) r, rest) else None)
          else None
      | _ \<Rightarrow> None)"

definition quoted_callback ::
  "jstring set \<Rightarrow> jstring \<Rightarrow> jstring \<Rightarrow> run_state \<Rightarrow> jstring \<times> run_state" where
  "quoted_callback cw moduleName zhText st =
     (js ''$t('' @ [squote] @ translation_key cw moduleName zhText @ [squote] @ js '')'',
      addLocale cw moduleName zhText st)"

definition interpolation_callback ::
  "jstring set \<Rightarrow> jstring \<Rightarrow> jstring \<Rightarrow> run_state \<Rightarrow> jstring \<times> run_state" where
  "interpolation_callback cw moduleName expression st =
     (case greplace match_quoted (quoted_callback cw moduleName) expression st of
        (replaced, st') \<Rightarrow> (js ''{{'' @ replaced @ js ''}}'', st'))"

definition interpolation_pass ::
  "jstring set \<Rightarrow> jstring \<Rightarrow> jstring \<Rightarrow> run_state \<Rightarrow> jstring \<times> run_state" where
  "interpolation_pass cw moduleName template st =
     greplace match_interpolation (interpolation_callback cw moduleName) template st"

subsection \<open>\<^verbatim>\<open>transformTemplate\<close>\<close>

definition transformTemplate ::
  "externals \<Rightarrow> jstring set \<Rightarrow> jstring \<Rightarrow> jstring \<Rightarrow> run_state \<Rightarrow> jstring \<times> run_state" where
  "transformTemplate ext cw template moduleName st =
     (case attribute_pass ext cw moduleName template st of
        (t1, st1) \<Rightarrow>
          (case tag_text_pass cw moduleName t1 st1 of
             (t2, st2) \<Rightarrow>
               (case interpolation_pass cw moduleName t2 st2 of
                  (t3, st3) \<Rightarrow> tag_text_pass cw moduleName t3 st3)))"

section \<open>The unit processor\<close>

text \<open>
  \<^verbatim>\<open>parseSFC(content).descriptor\<close> of \<^verbatim>\<open>@vue/compiler-sfc\<close>, as far as
  \<^verbatim>\<open>processVueFile\<close> reads it: the template block, the two script blocks and the style
  blocks, each with its content, its attributes as written in the file, and the
  \<^verbatim>\<open>lang\<close> and \<^verbatim>\<open>scoped\<close> fields the parser derives from them. The parser is a
  parameter. The file is read from \<^verbatim>\<open>srcPath\<close> and the result written to
  \<^verbatim>\<open>outPath\<close>; the model takes the text read and returns the text written.
\<close>

datatype attr_value = AttrTrue | AttrString jstring

record sfc_block =
  content :: jstring
  attrs :: "(jstring \<times> attr_value) list"
  lang :: "jstring option"
  scoped :: bool

record descriptor =
  template :: "sfc_block option"
  script :: "sfc_block option"
  scriptSetup :: "sfc_block option"
  styles :: "sfc_block list"

text \<open>\<^verbatim>\<open>descriptor.template?.content || ""\<close>\<close>

definition block_content :: "sfc_block option \<Rightarrow> jstring" where
  "block_content b = (case b of None \<Rightarrow> [] | Some blk \<Rightarrow> content blk)"

text \<open>The callback of \<^verbatim>\<open>styles.map\<close>.\<close>

definition style_region :: "sfc_block \<Rightarrow> jstring" where
  "style_region style =
     js ''<style'' @ (if scoped style then js '' scoped'' else [])
     @ (case lang style of
          None \<Rightarrow> []
        | Some l \<Rightarrow> if l = [] then [] else js '' lang='' @ [dquote] @ l @ [dquote])
     @ js ''>'' @ nl @ content style @ nl @ js ''</style>''"

text \<open>\<^verbatim>\<open>Array.prototype.join\<close>\<close>

fun join :: "jstring list \<Rightarrow> jstring \<Rightarrow> jstring" where
  "join [] sep = []"
| "join [x] sep = x"
| "join (x # y # ys) sep = x @ sep @ join (y # ys) sep"

definition newContent :: "jstring \<Rightarrow> jstring \<Rightarrow> sfc_block list \<Rightarrow> jstring" where
  "newContent newScript newTemplate style_blocks =
     trim (nl @ js ''<script setup lang='' @ [dquote] @ js ''ts'' @ [dquote] @ js ''>'' @ nl
           @ newScript @ nl
           @ js ''</script>'' @ nl
           @ js ''<template>'' @ nl
           @ newTemplate @ nl
           @ js ''</template>'' @ nl
           @ join (map style_region style_blocks) nl @ nl)"

definition processVueFile ::
  "externals \<Rightarrow> (jstring \<Rightarrow> descriptor) \<Rightarrow> jstring set \<Rightarrow> jstring \<Rightarrow> jstring \<Rightarrow> run_state
   \<Rightarrow> (js_error + jstring) \<times> run_state" where
  "processVueFile ext parseSFC cw srcContent moduleName st =
     (let d = parseSFC srcContent;
          template_text = block_content (template d);
          script_text = block_content (scriptSetup d)
      in case (if template_text \<noteq> [] then transformTemplate ext cw template_text moduleName st
               else ([], st)) of
           (newTemplate, st1) \<Rightarrow>
             (case (if script_text \<noteq> [] then transformScript ext cw script_text moduleName st1
                    else (Inr [], st1)) of
                (Inl err, st2) \<Rightarrow> (Inl err, st2)
              | (Inr newScript, st2) \<Rightarrow>
                  (Inr (newContent newScript newTemplate (styles d)), st2)))"

definition processTsFile ::
  "externals \<Rightarrow> jstring set \<Rightarrow> jstring \<Rightarrow> jstring \<Rightarrow> run_state
   \<Rightarrow> (js_error + jstring) \<times> run_state" where
  "processTsFile ext cw code moduleName st = transformScript ext cw code moduleName st"

section \<open>Notions used in the statements\<close>

text \<open>
  The registry seen as a map from namespaces to maps from texts to texts, the insertion
  on that view, and a sequence of calls \<^verbatim>\<open>addLocale(moduleName, text)\<close> given as a list of
  pairs.
\<close>

definition table_view_add :: "(jstring \<rightharpoonup> jstring) \<Rightarrow> jstring \<Rightarrow> (jstring \<rightharpoonup> jstring)" where
  "table_view_add tv text =
     (if (case tv text of Some v \<Rightarrow> v \<noteq> [] | None \<Rightarrow> inherited text) then tv else tv(text \<mapsto> text))"

definition reg_view :: "registry \<Rightarrow> jstring \<rightharpoonup> (jstring \<rightharpoonup> jstring)" where
  "reg_view reg ns = map_option map_of (map_of reg ns)"

definition view_add :: "jstring set \<Rightarrow> jstring \<times> jstring \<Rightarrow> (jstring \<rightharpoonup> (jstring \<rightharpoonup> jstring)) \<Rightarrow> (jstring \<rightharpoonup> (jstring \<rightharpoonup> jstring))" where
  "view_add cw p v =
     (let tm = targetModule cw (fst p) (snd p) in
      case v tm of
        None \<Rightarrow> if inherited tm then v else v(tm \<mapsto> table_view_add Map.empty (snd p))
      | Some tv \<Rightarrow> v(tm \<mapsto> table_view_add tv (snd p)))"

definition insert_all :: "jstring set \<Rightarrow> (jstring \<times> jstring) list \<Rightarrow> registry \<Rightarrow> registry" where
  "insert_all cw ps reg = fold (\<lambda>p r. addLocaleMap cw r (fst p) (snd p)) ps reg"

text \<open>
  The registries that a run builds: every namespace and every text is there once, a text
  is stored under itself, and no text is an array index (a canonical decimal numeral,
  which an object enumerates before its other keys) or the name of a member of
  \<^verbatim>\<open>Object.prototype\<close>. A text is \<open>recordable\<close> when it has a target character or one of
  the punctuation characters of the binding pass in it; every text the rewriters hand to
  \<^verbatim>\<open>addLocale\<close> is.
\<close>

definition table_wf :: "jstring jsobj \<Rightarrow> bool" where
  "table_wf tbl \<longleftrightarrow>
     distinct (map fst tbl) \<and>
     (\<forall>p \<in> set tbl. snd p = fst p \<and> \<not> is_array_index (fst p) \<and> \<not> inherited (fst p))"

definition reg_wf :: "registry \<Rightarrow> bool" where
  "reg_wf reg \<longleftrightarrow> distinct (map fst reg) \<and> (\<forall>p \<in> set reg. table_wf (snd p))"

definition recordable :: "jstring \<Rightarrow> bool" where
  "recordable text = list_ex is_binding_char text"

definition state_wf :: "run_state \<Rightarrow> bool" where
  "state_wf st = reg_wf (localeMap st)"

definition tl_state_wf :: "'e tl_state \<Rightarrow> bool" where
  "tl_state_wf acc = state_wf (snd (snd (snd acc)))"

text \<open>The document of a namespace, in the words of the specification: the namespace as
  the only top-level key, and under it the texts in ascending order, each as key and
  value.\<close>

definition document_of :: "jstring \<Rightarrow> jstring set \<Rightarrow> jstring \<times> document" where
  "document_of ns texts =
     (ns @ js ''.json'', Document ns (map (\<lambda>k. (k, k)) (sorted_list_of_set texts)))"

text \<open>The original expressions among the new expressions of a template literal, where the
  calls put in are tagged \<open>Inl\<close> and the originals \<open>Inr\<close>.\<close>

definition originals :: "('a + 'b) list \<Rightarrow> 'b list" where
  "originals es = List.map_filter (\<lambda>e. case e of Inl call \<Rightarrow> None | Inr x \<Rightarrow> Some x) es"

definition tl_originals :: "('a + 'b) tl_state \<Rightarrow> 'b list" where
  "tl_originals acc = originals (fst (snd acc))"

text \<open>
  A pattern has a match somewhere in a text. A scan from left to right reaches a position
  when no match begins before it and runs over it; for the patterns of the markup
  rewriter that is so when the pattern has no match in the text before the position
  taken together with the opening delimiter that stands at the position.
\<close>

definition matches_in :: "(jstring \<Rightarrow> 'm option) \<Rightarrow> jstring \<Rightarrow> bool" where
  "matches_in mt s \<longleftrightarrow> regex_test (\<lambda>r. mt r \<noteq> None) s"


definition t_call_argument :: "jstring \<Rightarrow> jstring option" where
  "t_call_argument expression =
     (if startsWith expression (js ''$t('' @ [squote]) then
        (let body = takeWhile (\<lambda>c. c \<noteq> squote) (drop 4 expression);
             r = dropWhile (\<lambda>c. c \<noteq> squote) (drop 4 expression)
         in if r = squote # js '')'' \<and> list_all (\<lambda>c. c \<noteq> 0x5C \<and> \<not> is_line_terminator c) body
            then Some body else None)
      else None)"

text \<open>
  The inputs of the examples: the words U+4F60 U+597D, U+4ED6 U+8BF4 and U+4E16 U+754C,
  the namespace of the run, the empty state, a parser that rejects every text
  (\<open>rejecting\<close>), a parser that takes every text for a program without statements,
  with a generator that prints the source text (\<open>echo\<close>), and a parser that knows the
  one script \<open>mixed_script\<close>, a statement that is a template literal
  (\<open>mixed_parser\<close>); every field takes every node in them. Then the templates, units
  and descriptors, and the fixed parts of the text that \<^verbatim>\<open>processVueFile\<close> writes.
\<close>

definition nihao :: jstring where
  "nihao = [0x4F60, 0x597D]"

definition tashuo :: jstring where
  "tashuo = [0x4ED6, 0x8BF4]"

definition shijie :: jstring where
  "shijie = [0x4E16, 0x754C]"

definition test :: jstring where
  "test = js ''test''"

definition st0 :: run_state where
  "st0 = \<lparr>localeMap = [], warnings = []\<rparr>"

definition rejecting :: externals where
  "rejecting =
     \<lparr>parse_binding = (\<lambda>code. Inl (SyntaxError code)),
      parse_script = (\<lambda>code. Inl (SyntaxError code)),
      generate_binding = (\<lambda>expr. []),
      generate_script = (\<lambda>ast code. []),
      validate = (\<lambda>parent key n. True)\<rparr>"

definition echo :: externals where
  "echo =
     \<lparr>parse_binding = (\<lambda>code. Inr []),
      parse_script = (\<lambda>code. Inr []),
      generate_binding = (\<lambda>expr. []),
      generate_script = (\<lambda>ast code. code),
      validate = (\<lambda>parent key n. True)\<rparr>"

definition quoted_unit :: jstring where
  "quoted_unit = js ''<p>{{ '' @ [squote] @ tashuo @ [dquote] @ nihao @ [dquote] @ [squote] @ js '' }}</p>''"

definition quoted_once :: jstring where
  "quoted_once = js ''<p>{{ '' @ [squote] @ tashuo @ js ''$t('' @ [squote] @ js ''test.'' @ nihao @ [squote]
     @ js '')'' @ [squote] @ js '' }}</p>''"

definition quoted_twice :: jstring where
  "quoted_twice = js ''<p>{{ $t('' @ [squote] @ js ''test.'' @ tashuo @ js ''$t('' @ [squote] @ js '')test.''
     @ nihao @ [squote] @ js '')'' @ [squote] @ js '' }}</p>''"

definition inner_unit :: jstring where
  "inner_unit = js ''<p>{{ '' @ [squote] @ js ''a'' @ nihao @ [squote] @ js '' }}</p>''"

definition dangling :: jstring where
  "dangling = [squote] @ nihao @ [squote] @ js '' +''"




definition apostrophe_unit :: jstring where
  "apostrophe_unit = js ''<div title='' @ [dquote] @ nihao @ [squote] @ shijie @ [squote] @ [dquote]
     @ js ''></div>''"

definition apostrophe_bound :: jstring where
  "apostrophe_bound = js ''<div :title='' @ [dquote] @ js ''$t('' @ [squote] @ js ''test.'' @ nihao
     @ [squote] @ shijie @ [squote] @ [squote] @ js '')'' @ [dquote] @ js ''></div>''"

definition directive_unit :: jstring where
  "directive_unit = js ''<div v-if='' @ [dquote] @ nihao @ [dquote] @ js ''></div>''"

definition directive_bound :: jstring where
  "directive_bound = js ''<div :v-if='' @ [dquote] @ js ''$t('' @ [squote] @ js ''test.'' @ nihao
     @ [squote] @ js '')'' @ [dquote] @ js ''></div>''"

definition sum_unit :: jstring where
  "sum_unit = js ''<p>{{ '' @ [squote] @ js ''a'' @ [squote] @ js '' + '' @ [squote] @ nihao @ [squote]
     @ js '' }}</p>''"

definition sum_bound :: jstring where
  "sum_bound = js ''<p>{{ '' @ [squote] @ js ''a'' @ [squote] @ js '' + $t('' @ [squote] @ js ''test.''
     @ nihao @ [squote] @ js '') }}</p>''"

definition mixed_quasi :: quasi where
  "mixed_quasi = TemplateElement (js ''a'' @ nihao @ js ''b'') (js ''a'' @ nihao @ js ''b'') True"

definition mixed_script :: jstring where
  "mixed_script = [0x60] @ js ''a'' @ nihao @ js ''b'' @ [0x60] @ js '';''"

definition mixed_parser :: externals where
  "mixed_parser =
     \<lparr>parse_binding = (\<lambda>code. Inl (SyntaxError code)),
      parse_script = (\<lambda>code. if code = mixed_script
         then Inr [Node ''ExpressionStatement'' [TemplateLiteral [mixed_quasi] [] False]]
         else Inl (SyntaxError code)),
      generate_binding = (\<lambda>expr. []),
      generate_script = (\<lambda>ast code. code),
      validate = (\<lambda>parent key n. True)\<rparr>"

definition greeting_unit :: jstring where
  "greeting_unit = js ''<p>'' @ nihao @ js '' {{ '' @ [squote] @ shijie @ [squote] @ js '' }}</p>''"

definition greeting_text :: jstring where
  "greeting_text = js ''<p>{{ $t('' @ [squote] @ js ''test.'' @ nihao @ [squote] @ js '') }} {{ ''
     @ [squote] @ shijie @ [squote] @ js '' }}</p>''"

definition greeting_bound :: jstring where
  "greeting_bound = js ''<p>{{ $t('' @ [squote] @ js ''test.'' @ nihao @ [squote] @ js '') }} {{ $t(''
     @ [squote] @ js ''test.'' @ shijie @ [squote] @ js '') }}</p>''"

definition script_open :: jstring where
  "script_open = js ''<script setup lang='' @ [dquote] @ js ''ts'' @ [dquote] @ js ''>''"

definition styles_tail :: "sfc_block list \<Rightarrow> jstring" where
  "styles_tail style_blocks =
     (if style_blocks = [] then [] else nl @ join (map style_region style_blocks) nl)"

definition module_descriptor :: descriptor where
  "module_descriptor =
     \<lparr>template = None, script = None, scriptSetup = None,
      styles = [\<lparr>content = nl @ js ''.a{}'' @ nl, attrs = [(js ''module'', AttrTrue)],
                 lang = None, scoped = False\<rparr>]\<rparr>"

definition module_unit :: jstring where
  "module_unit = js ''<style module>'' @ nl @ js ''.a{}'' @ nl @ js ''</style>''"

definition module_parser :: "jstring \<Rightarrow> descriptor" where
  "module_parser srcContent = module_descriptor"

definition module_output :: jstring where
  "module_output = script_open @ nl @ nl @ js ''</script>'' @ nl @ js ''<template>'' @ nl @ nl
     @ js ''</template>'' @ nl @ js ''<style>'' @ nl @ nl @ js ''.a{}'' @ nl @ nl @ js ''</style>''"

definition two_scripts_descriptor :: descriptor where
  "two_scripts_descriptor =
     \<lparr>template = None,
      script = Some \<lparr>content = js ''export default {};'', attrs = [], lang = None, scoped = False\<rparr>,
      scriptSetup = Some \<lparr>content = js ''const a = 1;'',
                           attrs = [(js ''setup'', AttrTrue), (js ''lang'', AttrString (js ''js''))],
                           lang = Some (js ''js''), scoped = False\<rparr>,
      styles = []\<rparr>"

definition two_scripts_parser :: "jstring \<Rightarrow> descriptor" where
  "two_scripts_parser srcContent = two_scripts_descriptor"

definition two_scripts_unit :: jstring where
  "two_scripts_unit = js ''<script>'' @ nl @ js ''export default {};'' @ nl @ js ''</script>'' @ nl
     @ js ''<script setup lang='' @ [dquote] @ js ''js'' @ [dquote] @ js ''>'' @ nl @ js ''const a = 1;''
     @ nl @ js ''</script>''"

definition two_scripts_output :: jstring where
  "two_scripts_output = script_open @ nl @ js ''const a = 1;'' @ nl @ js ''</script>'' @ nl
     @ js ''<template>'' @ nl @ nl @ js ''</template>''"

section \<open>Scanning\<close>

text \<open>Every matcher consumes at least one character, so the test
  \<open>length rest \<le> length cs\<close> in \<^const>\<open>greplace\<close> and \<^const>\<open>gsplit\<close> never fails.\<close>

lemma length_dropWhile_Cons: "P c \<Longrightarrow> length (dropWhile P (c # cs)) \<le> length cs"
  by (simp add: length_dropWhile_le)

lemma match_zh_run_shorter: "match_zh_run (c # cs) = Some (m, rest) \<Longrightarrow> length rest \<le> length cs"
  by (auto simp add: match_zh_run_def length_dropWhile_le split: if_splits)

lemma match_binding_run_shorter:
  "match_binding_run (c # cs) = Some (m, rest) \<Longrightarrow> length rest \<le> length cs"
  by (auto simp add: match_binding_run_def length_dropWhile_le split: if_splits)

lemma length_tl_dropWhile: "length (tl (dropWhile P xs)) \<le> length xs"
proof -
  have "length (tl (dropWhile P xs)) \<le> length (dropWhile P xs)" by simp
  also have "\<dots> \<le> length xs" by (rule length_dropWhile_le)
  finally show ?thesis .
qed

lemma match_tag_text_shorter: "match_tag_text (c # cs) = Some (m, rest) \<Longrightarrow> length rest \<le> length cs"
proof -
  assume "match_tag_text (c # cs) = Some (m, rest)"
  then have "rest = tl (dropWhile (\<lambda>c. c \<noteq> 0x3C) cs)"
    by (auto simp add: match_tag_text_def Let_def split: if_splits)
  then show ?thesis by (simp only: length_tl_dropWhile)
qed

lemma match_attr_shorter: "match_attr (c # cs) = Some (m, rest) \<Longrightarrow> length rest \<le> length cs"
proof -
  assume a: "match_attr (c # cs) = Some (m, rest)"
  let ?r1 = "dropWhile is_attr_name_char cs"
  from a have "rest = tl (dropWhile (\<lambda>c. c \<noteq> dquote) (drop 2 ?r1))"
    by (auto simp add: match_attr_def Let_def split: if_splits)
  moreover have "length (tl (dropWhile (\<lambda>c. c \<noteq> dquote) (drop 2 ?r1))) \<le> length (drop 2 ?r1)"
    by (rule length_tl_dropWhile)
  moreover have "length (drop 2 ?r1) \<le> length cs"
    using length_dropWhile_le [of is_attr_name_char cs] by simp
  ultimately show ?thesis by simp
qed

lemma match_interpolation_shorter:
  "match_interpolation (c # cs) = Some (m, rest) \<Longrightarrow> length rest \<le> length cs"
proof -
  assume a: "match_interpolation (c # cs) = Some (m, rest)"
  then have "rest = drop 2 (dropWhile (\<lambda>c. \<not> is_brace c) (drop 2 (c # cs)))"
    by (auto simp add: match_interpolation_def Let_def split: if_splits)
  moreover have "length (dropWhile (\<lambda>c. \<not> is_brace c) (drop 2 (c # cs))) \<le> length (drop 2 (c # cs))"
    by (rule length_dropWhile_le)
  ultimately show ?thesis by simp
qed

lemma match_quoted_shorter: "match_quoted (c # cs) = Some (m, rest) \<Longrightarrow> length rest \<le> length cs"
proof -
  assume a: "match_quoted (c # cs) = Some (m, rest)"
  then obtain z r q' where cs: "cs = z # r" and d: "dropWhile (\<lambda>c. \<not> is_quote c) r = q' # rest"
    by (auto simp add: match_quoted_def split: list.splits if_splits)
  have "length (dropWhile (\<lambda>c. \<not> is_quote c) r) \<le> length r" by (rule length_dropWhile_le)
  then show ?thesis using cs d by simp
qed

lemma lazy_until_close_shorter: "lazy_until_close s = Some (body, rest) \<Longrightarrow> length rest \<le> length s"
proof (induction s arbitrary: body rest)
  case Nil
  then show ?case by simp
next
  case (Cons c cs)
  show ?case
  proof (cases "startsWith (c # cs) (js ''}}'')")
    case True
    with Cons.prems have "rest = drop 1 cs" by auto
    then show ?thesis by simp
  next
    case False
    with Cons.prems obtain b where "lazy_until_close cs = Some (b, rest)"
      by (auto split: if_splits option.splits)
    then have "length rest \<le> length cs" by (rule Cons.IH)
    then show ?thesis by simp
  qed
qed

lemma match_mustache_shorter: "match_mustache (c # cs) = Some (m, rest) \<Longrightarrow> length rest \<le> length cs"
proof -
  assume a: "match_mustache (c # cs) = Some (m, rest)"
  then obtain body where "lazy_until_close (drop 2 (c # cs)) = Some (body, rest)"
    by (auto simp add: match_mustache_def split: if_splits option.splits)
  then have "length rest \<le> length (drop 2 (c # cs))" by (rule lazy_until_close_shorter)
  then show ?thesis by simp
qed

text \<open>One step of a replacement, and the runs that stop at a character outside their
  class.\<close>

lemmas char_defs = js_def squote_def dquote_def nihao_def tashuo_def shijie_def test_def nl_def common_def

lemmas class_defs = is_zh_def is_space_def is_quote_def is_brace_def is_attr_name_char_def
  is_line_terminator_def is_binding_char_def zhReg_test_def startsWith_def

lemmas match_defs = match_attr_def match_tag_text_def match_mustache_def match_interpolation_def
  match_quoted_def match_zh_run_def match_comment_def match_t_call_def match_binding_run_def

lemma greplace_Cons_None:
  "mt (c # cs) = None \<Longrightarrow>
   greplace mt f (c # cs) st = (case greplace mt f cs st of (r, st') \<Rightarrow> (c # r, st'))"
  by simp

lemma greplace_Cons_Some:
  "mt (c # cs) = Some (m, rest) \<Longrightarrow> length rest \<le> length cs \<Longrightarrow>
   greplace mt f (c # cs) st =
     (case f m st of (out, st1) \<Rightarrow> (case greplace mt f rest st1 of (r, st2) \<Rightarrow> (out @ r, st2)))"
  by simp

text \<open>Where the pattern has no match from any position of a piece of text, the piece is
  copied and the scan goes on behind it.\<close>

lemma greplace_skip:
  assumes "\<And>s. s \<noteq> [] \<Longrightarrow> suffix s pre \<Longrightarrow> mt (s @ rest) = None"
  shows "greplace mt f (pre @ rest) st =
         (case greplace mt f rest st of (out, st') \<Rightarrow> (pre @ out, st'))"
  using assms
proof (induction pre)
  case Nil
  then show ?case by (simp split: prod.splits)
next
  case (Cons c pre)
  have n: "mt ((c # pre) @ rest) = None" by (rule Cons.prems) simp_all
  have "greplace mt f (pre @ rest) st =
         (case greplace mt f rest st of (out, st') \<Rightarrow> (pre @ out, st'))"
    by (rule Cons.IH) (simp add: Cons.prems suffix_Cons)
  then show ?case using n by (simp split: prod.splits)
qed

lemma regex_test_suffix: "regex_test P xs \<longleftrightarrow> (\<exists>s. suffix s xs \<and> P s)"
  by (induction xs) (auto simp add: suffix_Cons)

lemma matches_in_suffix:
  "\<not> matches_in mt t \<Longrightarrow> suffix s t \<Longrightarrow> mt s = None"
  by (auto simp add: matches_in_def regex_test_suffix)

lemma greplace_no_match:
  assumes "\<not> matches_in mt s"
  shows "greplace mt f s st = (s, st)"
proof -
  have "greplace mt f (s @ []) st = (case greplace mt f [] st of (out, st') \<Rightarrow> (s @ out, st'))"
    by (rule greplace_skip) (use assms in \<open>simp add: matches_in_suffix\<close>)
  then show ?thesis by simp
qed

lemma takeWhile_stop: "\<forall>x \<in> set xs. P x \<Longrightarrow> \<not> P y \<Longrightarrow> takeWhile P (xs @ y # ys) = xs"
  by (induction xs) auto

lemma dropWhile_stop: "\<forall>x \<in> set xs. P x \<Longrightarrow> \<not> P y \<Longrightarrow> dropWhile P (xs @ y # ys) = y # ys"
  by (induction xs) auto

lemma fold_invariant:
  "(\<And>x a. x \<in> set xs \<Longrightarrow> P a \<Longrightarrow> P (f x a)) \<Longrightarrow> P a \<Longrightarrow> P (fold f xs a)"
  by (induction xs arbitrary: a) simp_all

lemma zh_not_space: "is_zh c \<Longrightarrow> \<not> is_space c"
  by (auto simp add: is_zh_def is_space_def)

lemma dropWhile_space_zh: "zhReg_test s \<Longrightarrow> zhReg_test (dropWhile is_space s)"
  unfolding zhReg_test_def by (induction s) (auto simp add: zh_not_space)

lemma trim_zh: "zhReg_test s \<Longrightarrow> zhReg_test (trim s)"
proof -
  assume "zhReg_test s"
  then have "zhReg_test (rev (dropWhile is_space s))"
    using dropWhile_space_zh [of s] by (simp add: zhReg_test_def list_ex_iff)
  then have "zhReg_test (dropWhile is_space (rev (dropWhile is_space s)))"
    by (rule dropWhile_space_zh)
  then show ?thesis by (simp add: trim_def zhReg_test_def list_ex_iff)
qed


lemma set_trim: "set (trim s) \<subseteq> set s"
proof -
  have "set (dropWhile is_space (rev (dropWhile is_space s))) \<subseteq> set (rev (dropWhile is_space s))"
    by (rule set_dropWhileD [THEN subsetI])
  also have "\<dots> \<subseteq> set s" using set_dropWhileD [of _ is_space s] by auto
  finally show ?thesis by (simp add: trim_def)
qed

section \<open>The registry\<close>

lemma map_of_table_add: "map_of (table_add tbl text) = table_view_add (map_of tbl) text"
  by (simp add: table_add_def table_view_add_def truthy_entry_def obj_set_def update_conv')

lemma reg_view_addLocaleMap:
  "reg_view (addLocaleMap cw reg m t) = view_add cw (m, t) (reg_view reg)"
  by (rule ext)
     (simp add: reg_view_def addLocaleMap_def view_add_def Let_def obj_set_def update_conv'
        map_of_table_add split: option.splits)

lemma table_view_add_commute:
  "table_view_add (table_view_add tv a) b = table_view_add (table_view_add tv b) a"
  by (rule ext) (auto simp add: table_view_add_def split: option.splits)

lemma view_add_commute: "view_add cw p (view_add cw q v) = view_add cw q (view_add cw p v)"
proof (cases "targetModule cw (fst p) (snd p) = targetModule cw (fst q) (snd q)")
  case True
  then show ?thesis
    by (auto simp add: view_add_def Let_def table_view_add_commute split: option.splits)
next
  case False
  then show ?thesis
    by (auto simp add: view_add_def Let_def fun_upd_twist split: option.splits)
qed

lemma reg_view_insert_all: "reg_view (insert_all cw ps reg) = fold (view_add cw) ps (reg_view reg)"
  unfolding insert_all_def
  by (induction ps arbitrary: reg) (simp_all add: reg_view_addLocaleMap)

lemma insert_all_order:
  assumes "mset ps = mset qs"
  shows "reg_view (insert_all cw ps reg) = reg_view (insert_all cw qs reg)"
proof -
  have "fold (view_add cw) ps = fold (view_add cw) qs"
    by (rule fold_multiset_equiv) (auto simp add: fun_eq_iff view_add_commute assms)
  then show ?thesis by (simp add: reg_view_insert_all)
qed

lemma table_add_idem: "table_add (table_add tbl t) t = table_add tbl t"
  by (auto simp add: table_add_def truthy_entry_def obj_set_def update_conv' split: option.splits)

lemma addLocaleMap_idem: "addLocaleMap cw (addLocaleMap cw reg m t) m t = addLocaleMap cw reg m t"
  by (auto simp add: addLocaleMap_def Let_def obj_set_def update_conv' table_add_idem split: option.splits)

lemma addLocaleMap_present:
  assumes "map_of reg (targetModule cw m t) = Some tbl" and "map_of tbl t = Some t"
  shows "addLocaleMap cw reg m t = reg"
proof -
  have "table_add tbl t = tbl"
    using assms(2) by (auto simp add: table_add_def truthy_entry_def obj_set_def update_triv)
  then show ?thesis
    using assms(1) by (simp add: addLocaleMap_def Let_def obj_set_def update_triv)
qed

lemma common_not_inherited: "\<not> inherited common"
  by (simp add: inherited_def common_def object_prototype_keys_def js_def)

lemma addLocaleMap_other:
  "ns \<noteq> targetModule cw m t \<Longrightarrow> map_of (addLocaleMap cw reg m t) ns = map_of reg ns"
  by (simp add: addLocaleMap_def Let_def obj_set_def update_conv' split: option.splits)

lemma table_add_key: "\<not> inherited t \<Longrightarrow> t \<in> fst ` set (table_add tbl t)"
  by (auto simp add: table_add_def truthy_entry_def obj_set_def dom_update
      split: option.splits dest: map_of_SomeD intro: rev_image_eqI)

lemma addLocaleMap_files:
  assumes "\<not> inherited t" and "\<not> inherited (targetModule cw m t) \<or> targetModule cw m t \<in> fst ` set reg"
  shows "\<exists>tbl. map_of (addLocaleMap cw reg m t) (targetModule cw m t) = Some tbl \<and> t \<in> fst ` set tbl"
proof (cases "map_of reg (targetModule cw m t)")
  case None
  then have "targetModule cw m t \<notin> fst ` set reg" by (simp add: map_of_eq_None_iff)
  with assms(2) have "\<not> inherited (targetModule cw m t)" by simp
  with None show ?thesis
    by (simp add: addLocaleMap_def Let_def obj_set_def update_conv' table_add_key [OF assms(1)])
next
  case (Some tbl)
  then show ?thesis
    by (simp add: addLocaleMap_def Let_def obj_set_def update_conv' table_add_key [OF assms(1)])
qed

lemma nihao_not_inherited: "\<not> inherited nihao"
  by (simp add: inherited_def nihao_def object_prototype_keys_def js_def)

lemma test_not_inherited: "\<not> inherited test"
  by (simp add: inherited_def test_def object_prototype_keys_def js_def)

text \<open>
  Claim C3. A text of the override set is filed under the reserved namespace
  \<^verbatim>\<open>common\<close> whatever the namespace of the file: the translation call and the key hold
  \<^verbatim>\<open>common.<text>\<close>, and \<^verbatim>\<open>addLocale\<close> changes no other namespace and leaves the text
  as a key of the table of \<^verbatim>\<open>common\<close>. A text outside the override set is filed the
  same way under the namespace of the file. (A text that is the name of a member of
  \<^verbatim>\<open>Object.prototype\<close> is never stored: the test before the assignment finds the
  member.)
\<close>

theorem namespace_precedence:
  "(text \<in> cw \<longrightarrow>
      getTCallExpression cw text moduleName =
        Node ''CallExpression'' [Identifier (js ''$t''), StringLiteral (common @ js ''.'' @ text)]
      \<and> translation_key cw moduleName text = common @ js ''.'' @ text
      \<and> (\<forall>ns. ns \<noteq> common \<longrightarrow> map_of (addLocaleMap cw reg moduleName text) ns = map_of reg ns)
      \<and> (\<not> inherited text \<longrightarrow>
           (\<exists>tbl. map_of (addLocaleMap cw reg moduleName text) common = Some tbl
                  \<and> text \<in> fst ` set tbl)))
   \<and> (text \<notin> cw \<longrightarrow>
      getTCallExpression cw text moduleName =
        Node ''CallExpression'' [Identifier (js ''$t''), StringLiteral (moduleName @ js ''.'' @ text)]
      \<and> translation_key cw moduleName text = moduleName @ js ''.'' @ text
      \<and> (\<forall>ns. ns \<noteq> moduleName \<longrightarrow> map_of (addLocaleMap cw reg moduleName text) ns = map_of reg ns)
      \<and> (\<not> inherited text \<and> \<not> inherited moduleName \<longrightarrow>
           (\<exists>tbl. map_of (addLocaleMap cw reg moduleName text) moduleName = Some tbl
                  \<and> text \<in> fst ` set tbl)))"
proof -
  have c: "text \<in> cw \<Longrightarrow> targetModule cw moduleName text = common"
    and m: "text \<notin> cw \<Longrightarrow> targetModule cw moduleName text = moduleName"
    by (simp_all add: targetModule_def)
  have key: "translation_key cw moduleName text = targetModule cw moduleName text @ js ''.'' @ text"
    by (simp add: translation_key_def)
  have call: "getTCallExpression cw text moduleName =
      Node ''CallExpression''
        [Identifier (js ''$t''), StringLiteral (targetModule cw moduleName text @ js ''.'' @ text)]"
    by (simp add: getTCallExpression_def translation_key_def)
  have other: "\<forall>ns. ns \<noteq> targetModule cw moduleName text \<longrightarrow>
      map_of (addLocaleMap cw reg moduleName text) ns = map_of reg ns"
    by (simp add: addLocaleMap_other)
  have files: "\<not> inherited text \<and> \<not> inherited (targetModule cw moduleName text) \<longrightarrow>
      (\<exists>tbl. map_of (addLocaleMap cw reg moduleName text) (targetModule cw moduleName text) = Some tbl
             \<and> text \<in> fst ` set tbl)"
    using addLocaleMap_files [of "text" cw moduleName reg] by blast
  show ?thesis
  proof (cases "text \<in> cw")
    case True
    show ?thesis
      using True key call other files common_not_inherited unfolding c [OF True] by simp
  next
    case False
    show ?thesis
      using False key call other files unfolding m [OF False] by simp
  qed
qed

theorem namespace_precedence_witness:
  "nihao \<in> {nihao} \<and> shijie \<notin> {nihao} \<and> \<not> inherited nihao \<and> \<not> inherited shijie \<and> \<not> inherited test
   \<and> translation_key {nihao} test nihao = js ''common.'' @ nihao
   \<and> translation_key {nihao} test shijie = js ''test.'' @ shijie
   \<and> (\<exists>tbl. map_of (addLocaleMap {nihao} [] test nihao) common = Some tbl \<and> nihao \<in> fst ` set tbl)
   \<and> (\<exists>tbl. map_of (addLocaleMap {nihao} [] test shijie) test = Some tbl \<and> shijie \<in> fst ` set tbl)
   \<and> map_of (addLocaleMap {nihao} [] test nihao) test = None"
proof -
  have a: "nihao \<in> {nihao}" by simp
  have b: "shijie \<notin> {nihao}" by (simp add: nihao_def shijie_def)
  have c: "\<not> inherited shijie"
    by (simp add: inherited_def shijie_def object_prototype_keys_def js_def)
  have d: "test \<noteq> common" by (simp add: test_def common_def js_def)
  note p = namespace_precedence [of nihao "{nihao}" test "[]"]
  note q = namespace_precedence [of shijie "{nihao}" test "[]"]
  from p a nihao_not_inherited have p1: "translation_key {nihao} test nihao = common @ js ''.'' @ nihao"
    and p2: "\<exists>tbl. map_of (addLocaleMap {nihao} [] test nihao) common = Some tbl \<and> nihao \<in> fst ` set tbl"
    and p3: "map_of (addLocaleMap {nihao} [] test nihao) test = map_of [] test"
    using d by blast+
  from q b c test_not_inherited have q1: "translation_key {nihao} test shijie = test @ js ''.'' @ shijie"
    and q2: "\<exists>tbl. map_of (addLocaleMap {nihao} [] test shijie) test = Some tbl \<and> shijie \<in> fst ` set tbl"
    by blast+
  from p1 have p1': "translation_key {nihao} test nihao = js ''common.'' @ nihao"
    by (simp add: common_def js_def)
  from q1 have q1': "translation_key {nihao} test shijie = js ''test.'' @ shijie"
    by (simp add: test_def js_def)
  from p3 have p3': "map_of (addLocaleMap {nihao} [] test nihao) test = None" by simp
  show ?thesis
    using a b c nihao_not_inherited test_not_inherited p1' q1' p2 q2 p3' by blast
qed

text \<open>
  Claim C4. Inserting into the registry is idempotent, inserting a pair that is present
  changes nothing, and the registry as a map does not depend on the order in which the
  insertions of a multiset are made.
\<close>

theorem registry_insert_idempotent_commutative:
  "addLocaleMap cw (addLocaleMap cw reg moduleName text) moduleName text
     = addLocaleMap cw reg moduleName text
   \<and> (map_of reg (targetModule cw moduleName text) = Some tbl \<and> map_of tbl text = Some text
        \<longrightarrow> addLocaleMap cw reg moduleName text = reg)
   \<and> (mset ps = mset qs \<longrightarrow> reg_view (insert_all cw ps reg) = reg_view (insert_all cw qs reg))"
  using addLocaleMap_idem addLocaleMap_present insert_all_order by blast

theorem registry_insert_idempotent_commutative_witness:
  "map_of [(test, [(nihao, nihao)])] (targetModule {} test nihao) = Some [(nihao, nihao)]
   \<and> map_of [(nihao, nihao)] nihao = Some nihao
   \<and> addLocaleMap {} [(test, [(nihao, nihao)])] test nihao = [(test, [(nihao, nihao)])]
   \<and> mset [(test, nihao), (test, shijie)] = mset [(test, shijie), (test, nihao)]
   \<and> reg_view (insert_all {} [(test, nihao), (test, shijie)] [])
       = reg_view (insert_all {} [(test, shijie), (test, nihao)] [])
   \<and> insert_all {} [(test, nihao), (test, shijie)] [] = [(test, [(nihao, nihao), (shijie, shijie)])]
   \<and> insert_all {} [(test, shijie), (test, nihao)] [] = [(test, [(shijie, shijie), (nihao, nihao)])]"
proof -
  have h1: "map_of [(test, [(nihao, nihao)])] (targetModule {} test nihao) = Some [(nihao, nihao)]"
    by (simp add: targetModule_def)
  have h2: "map_of [(nihao, nihao)] nihao = Some nihao" by simp
  have h3: "mset [(test, nihao), (test, shijie)] = mset [(test, shijie), (test, nihao)]" by simp
  note t = registry_insert_idempotent_commutative
    [of "{}" "[(test, [(nihao, nihao)])]" test nihao "[(nihao, nihao)]" "[]" "[]"]
  note u = registry_insert_idempotent_commutative
    [of "{}" "[]" test nihao "[]" "[(test, nihao), (test, shijie)]" "[(test, shijie), (test, nihao)]"]
  have ne: "shijie \<noteq> nihao" by (simp add: nihao_def shijie_def)
  have i1: "insert_all {} [(test, nihao), (test, shijie)] [] = [(test, [(nihao, nihao), (shijie, shijie)])]"
    using ne nihao_not_inherited test_not_inherited
    by (simp add: insert_all_def addLocaleMap_def targetModule_def obj_set_def table_add_def
        truthy_entry_def inherited_def shijie_def object_prototype_keys_def js_def)
  have i2: "insert_all {} [(test, shijie), (test, nihao)] [] = [(test, [(shijie, shijie), (nihao, nihao)])]"
    using ne nihao_not_inherited test_not_inherited
    by (simp add: insert_all_def addLocaleMap_def targetModule_def obj_set_def table_add_def
        truthy_entry_def inherited_def shijie_def object_prototype_keys_def js_def)
  from t h1 h2 have r1: "addLocaleMap {} [(test, [(nihao, nihao)])] test nihao = [(test, [(nihao, nihao)])]"
    by blast
  from u h3 have r2: "reg_view (insert_all {} [(test, nihao), (test, shijie)] [])
       = reg_view (insert_all {} [(test, shijie), (test, nihao)] [])"
    by blast
  show ?thesis using h1 h2 h3 r1 r2 i1 i2 by blast
qed

section \<open>The dictionaries\<close>

lemma set_update_subset: "set (AList.update k v al) \<subseteq> insert (k, v) (set al)"
  by (induction al) auto

lemma table_wf_add:
  assumes "table_wf tbl" and "\<not> is_array_index t"
  shows "table_wf (table_add tbl t)"
proof (cases "truthy_entry tbl t")
  case True
  then show ?thesis using assms by (simp add: table_add_def)
next
  case False
  have ni: "\<not> inherited t"
  proof (cases "map_of tbl t")
    case None
    with False show ?thesis by (simp add: truthy_entry_def)
  next
    case (Some v)
    then have "(t, v) \<in> set tbl" by (rule map_of_SomeD)
    then show ?thesis using assms(1) by (auto simp add: table_wf_def)
  qed
  show ?thesis
    using False assms ni set_update_subset [of t t tbl]
    by (auto simp add: table_add_def table_wf_def obj_set_def distinct_update)
qed

lemma table_wf_Nil: "table_wf []"
  by (simp add: table_wf_def)

lemma reg_wf_update:
  "reg_wf reg \<Longrightarrow> table_wf tbl \<Longrightarrow> reg_wf (AList.update ns tbl reg)"
  unfolding reg_wf_def using set_update_subset [of ns tbl reg]
  by (auto simp add: distinct_update)

lemma reg_wf_addLocaleMap:
  assumes "reg_wf reg" and "\<not> is_array_index t"
  shows "reg_wf (addLocaleMap cw reg m t)"
proof (cases "map_of reg (targetModule cw m t)")
  case None
  then show ?thesis
    using assms by (simp add: addLocaleMap_def Let_def obj_set_def reg_wf_update table_wf_add table_wf_Nil)
next
  case (Some tbl)
  then have "(targetModule cw m t, tbl) \<in> set reg" by (rule map_of_SomeD)
  then have "table_wf tbl" using assms(1) by (auto simp add: reg_wf_def)
  then show ?thesis
    using assms Some by (simp add: addLocaleMap_def Let_def obj_set_def reg_wf_update table_wf_add)
qed

lemma reg_wf_insert_all:
  "reg_wf reg \<Longrightarrow> \<forall>p \<in> set ps. \<not> is_array_index (snd p) \<Longrightarrow> reg_wf (insert_all cw ps reg)"
  unfolding insert_all_def
  by (induction ps arbitrary: reg) (simp_all add: reg_wf_addLocaleMap)

lemma reg_wf_Nil: "reg_wf []"
  by (simp add: reg_wf_def)

lemma own_entries_no_index:
  "\<forall>p \<in> set obj. \<not> is_array_index (fst p) \<Longrightarrow> own_entries obj = obj"
  by (simp add: own_entries_def filter_empty_conv [THEN iffD2] filter_id_conv [THEN iffD2])

lemma set_own_entries: "set (own_entries obj) = set obj"
  by (auto simp add: own_entries_def)

lemma update_fresh: "k \<notin> fst ` set al \<Longrightarrow> AList.update k v al = al @ [(k, v)]"
  by (induction al) auto

lemma fold_sorted_keys:
  assumes "distinct ks" and "set ks \<inter> fst ` set acc = {}" and "\<forall>k \<in> set ks. m k = Some k"
  shows "fold (\<lambda>key acc. case m key of Some v \<Rightarrow> obj_set acc key v | None \<Rightarrow> acc) ks acc
         = acc @ map (\<lambda>k. (k, k)) ks"
  using assms
proof (induction ks arbitrary: acc)
  case Nil
  then show ?case by simp
next
  case (Cons k ks)
  have fresh: "k \<notin> fst ` set acc" using Cons.prems(2) by auto
  have "set ks \<inter> fst ` set (acc @ [(k, k)]) = {}"
    using Cons.prems(1,2) by auto
  with Cons show ?case
    by (simp add: obj_set_def update_fresh [OF fresh])
qed

lemma sorted_table_wf:
  assumes "table_wf tbl"
  shows "sorted_table tbl = map (\<lambda>k. (k, k)) (sort (map fst tbl))"
proof -
  have oe: "own_keys tbl = map fst tbl"
    using assms by (simp add: own_keys_def table_wf_def own_entries_no_index)
  have m: "\<forall>k \<in> set (sort (map fst tbl)). map_of tbl k = Some k"
    using assms by (auto simp add: table_wf_def)
  have d: "distinct (sort (map fst tbl))"
    using assms by (simp add: table_wf_def)
  show ?thesis
    unfolding sorted_table_def oe
    using fold_sorted_keys [OF d _ m, of "[]"] by simp
qed

lemma stringify_wf:
  assumes "table_wf tbl"
  shows "stringify ns (sorted_table tbl) = Document ns (map (\<lambda>k. (k, k)) (sort (map fst tbl)))"
proof -
  have "\<forall>p \<in> set (map (\<lambda>k. (k, k)) (sort (map fst tbl))). \<not> is_array_index (fst p)"
    using assms by (auto simp add: table_wf_def)
  then show ?thesis
    by (simp add: stringify_def sorted_table_wf [OF assms] own_entries_no_index)
qed

lemma sort_distinct_eq: "distinct xs \<Longrightarrow> sort xs = sorted_list_of_set (set xs)"
  by (simp add: sorted_list_of_set_sort_remdups distinct_remdups_id)

lemma writeLocaleFiles_wf:
  assumes "reg_wf reg"
  shows "writeLocaleFiles reg = map (\<lambda>p. document_of (fst p) (fst ` set (snd p))) (own_entries reg)"
proof -
  have "\<And>p. p \<in> set (own_entries reg) \<Longrightarrow>
      (case p of (moduleName, tbl) \<Rightarrow> (moduleName @ js ''.json'', stringify moduleName (sorted_table tbl)))
      = document_of (fst p) (fst ` set (snd p))"
  proof -
    fix p assume "p \<in> set (own_entries reg)"
    then have wf: "table_wf (snd p)"
      using assms by (auto simp add: set_own_entries reg_wf_def)
    then have "distinct (map fst (snd p))" by (simp add: table_wf_def)
    then have "sort (map fst (snd p)) = sorted_list_of_set (fst ` set (snd p))"
      by (simp add: sort_distinct_eq)
    then show "(case p of (moduleName, tbl) \<Rightarrow> (moduleName @ js ''.json'', stringify moduleName (sorted_table tbl)))
      = document_of (fst p) (fst ` set (snd p))"
      using stringify_wf [OF wf] by (cases p) (simp add: document_of_def)
  qed
  then show ?thesis
    unfolding writeLocaleFiles_def by (simp cong: map_cong)
qed

lemma set_writeLocaleFiles_view:
  assumes "reg_wf reg"
  shows "set (writeLocaleFiles reg) = {document_of ns (dom tv) | ns tv. reg_view reg ns = Some tv}"
proof -
  have d: "distinct (map fst reg)" using assms by (simp add: reg_wf_def)
  have "set (writeLocaleFiles reg) = (\<lambda>p. document_of (fst p) (fst ` set (snd p))) ` set reg"
    by (simp add: writeLocaleFiles_wf [OF assms] set_own_entries)
  also have "\<dots> = {document_of ns (dom tv) | ns tv. reg_view reg ns = Some tv}"
  proof (rule set_eqI, rule iffI)
    fix x assume "x \<in> (\<lambda>p. document_of (fst p) (fst ` set (snd p))) ` set reg"
    then obtain ns tbl where p: "(ns, tbl) \<in> set reg" and x: "x = document_of ns (fst ` set tbl)"
      by auto
    from p d have "map_of reg ns = Some tbl" by simp
    then have v: "reg_view reg ns = Some (map_of tbl)" by (simp add: reg_view_def)
    have "dom (map_of tbl) = fst ` set tbl" by (rule dom_map_of_conv_image_fst)
    then have "x = document_of ns (dom (map_of tbl))" using x by simp
    with v have "\<exists>ns tv. x = document_of ns (dom tv) \<and> reg_view reg ns = Some tv" by blast
    then show "x \<in> {document_of ns (dom tv) | ns tv. reg_view reg ns = Some tv}" by simp
  next
    fix x assume "x \<in> {document_of ns (dom tv) | ns tv. reg_view reg ns = Some tv}"
    then obtain ns tv where v: "reg_view reg ns = Some tv" and x: "x = document_of ns (dom tv)"
      by auto
    from v obtain tbl where t: "map_of reg ns = Some tbl" and tv: "tv = map_of tbl"
      by (auto simp add: reg_view_def)
    from t have m: "(ns, tbl) \<in> set reg" by (rule map_of_SomeD)
    have "dom tv = fst ` set tbl" by (simp add: tv dom_map_of_conv_image_fst)
    then have "x = (\<lambda>p. document_of (fst p) (fst ` set (snd p))) (ns, tbl)" using x by simp
    with m show "x \<in> (\<lambda>p. document_of (fst p) (fst ` set (snd p))) ` set reg" by (rule rev_image_eqI)
  qed
  finally show ?thesis .
qed

lemma strict_sorted_list_of_set: "sorted_wrt (<) (sorted_list_of_set (A :: jstring set))"
  by (simp add: strict_sorted_iff)

lemma document_of_shape:
  "top_key (snd (document_of ns texts)) = ns
   \<and> fst (document_of ns texts) = ns @ js ''.json''
   \<and> sorted_wrt (<) (map fst (table (snd (document_of ns texts))))
   \<and> (\<forall>p \<in> set (table (snd (document_of ns texts))). snd p = fst p)"
  by (simp add: document_of_def strict_sorted_list_of_set comp_def)

lemma document_of_keys:
  "finite texts \<Longrightarrow> fst ` set (table (snd (document_of ns texts))) = texts"
  by (simp add: document_of_def image_image)

text \<open>
  Claim C5. For a well-formed registry, \<^verbatim>\<open>writeLocaleFiles\<close> writes one document for
  each namespace, in the file named after it, with the namespace as its only top-level
  key and under it the texts of the namespace, each as key and as value, in strictly
  ascending lexicographic order. The registry built from the empty one by any sequence
  of insertions of texts that are no array indices is well formed, and the set of
  documents is the same for every order of the insertions. (The registry of a run is
  well formed: \<open>processVueFile_wf\<close>, \<open>processTsFile_wf\<close>.)
\<close>

theorem dictionary_serialization:
  "(reg_wf reg \<longrightarrow>
      writeLocaleFiles reg = map (\<lambda>p. document_of (fst p) (fst ` set (snd p))) (own_entries reg)
      \<and> distinct (map fst reg)
      \<and> set (own_entries reg) = set reg
      \<and> (\<forall>d \<in> set (writeLocaleFiles reg).
            sorted_wrt (<) (map fst (table (snd d)))
            \<and> (\<forall>p \<in> set (table (snd d)). snd p = fst p)
            \<and> fst d = top_key (snd d) @ js ''.json''
            \<and> (\<exists>tbl. (top_key (snd d), tbl) \<in> set reg
                       \<and> fst ` set (table (snd d)) = fst ` set tbl)))
   \<and> ((\<forall>p \<in> set ps. \<not> is_array_index (snd p)) \<longrightarrow>
      reg_wf (insert_all cw ps [])
      \<and> (\<forall>qs. mset qs = mset ps \<longrightarrow>
            set (writeLocaleFiles (insert_all cw qs [])) = set (writeLocaleFiles (insert_all cw ps []))))"
proof (intro conjI impI)
  assume wf: "reg_wf reg"
  show eq: "writeLocaleFiles reg = map (\<lambda>p. document_of (fst p) (fst ` set (snd p))) (own_entries reg)"
    by (rule writeLocaleFiles_wf [OF wf])
  show "distinct (map fst reg)" using wf by (simp add: reg_wf_def)
  show "set (own_entries reg) = set reg" by (rule set_own_entries)
  show "\<forall>d \<in> set (writeLocaleFiles reg).
            sorted_wrt (<) (map fst (table (snd d)))
            \<and> (\<forall>p \<in> set (table (snd d)). snd p = fst p)
            \<and> fst d = top_key (snd d) @ js ''.json''
            \<and> (\<exists>tbl. (top_key (snd d), tbl) \<in> set reg \<and> fst ` set (table (snd d)) = fst ` set tbl)"
  proof
    fix d assume "d \<in> set (writeLocaleFiles reg)"
    then obtain p where p: "p \<in> set reg" and d: "d = document_of (fst p) (fst ` set (snd p))"
      unfolding eq by (auto simp add: set_own_entries)
    have k: "fst ` set (table (snd d)) = fst ` set (snd p)"
      unfolding d by (rule document_of_keys) simp
    have t: "top_key (snd d) = fst p" unfolding d by (simp add: document_of_shape)
    have "(top_key (snd d), snd p) \<in> set reg" using p t by simp
    with k have "\<exists>tbl. (top_key (snd d), tbl) \<in> set reg \<and> fst ` set (table (snd d)) = fst ` set tbl"
      by blast
    then show "sorted_wrt (<) (map fst (table (snd d)))
           \<and> (\<forall>p \<in> set (table (snd d)). snd p = fst p)
           \<and> fst d = top_key (snd d) @ js ''.json''
           \<and> (\<exists>tbl. (top_key (snd d), tbl) \<in> set reg \<and> fst ` set (table (snd d)) = fst ` set tbl)"
      using document_of_shape [of "fst p" "fst ` set (snd p)"] unfolding d by simp
  qed
next
  assume a: "\<forall>p \<in> set ps. \<not> is_array_index (snd p)"
  show wf: "reg_wf (insert_all cw ps [])"
    using a by (simp add: reg_wf_insert_all reg_wf_Nil)
  show "\<forall>qs. mset qs = mset ps \<longrightarrow>
           set (writeLocaleFiles (insert_all cw qs [])) = set (writeLocaleFiles (insert_all cw ps []))"
  proof (intro allI impI)
    fix qs assume m: "mset qs = mset ps"
    then have "set qs = set ps" by (rule mset_eq_setD)
    with a have "\<forall>p \<in> set qs. \<not> is_array_index (snd p)" by simp
    then have wf': "reg_wf (insert_all cw qs [])" by (simp add: reg_wf_insert_all reg_wf_Nil)
    have "reg_view (insert_all cw qs []) = reg_view (insert_all cw ps [])" by (rule insert_all_order [OF m])
    then show "set (writeLocaleFiles (insert_all cw qs [])) = set (writeLocaleFiles (insert_all cw ps []))"
      by (simp add: set_writeLocaleFiles_view [OF wf] set_writeLocaleFiles_view [OF wf'])
  qed
qed

lemma shijie_lt_nihao: "shijie < nihao"
  by (simp add: shijie_def nihao_def)

theorem dictionary_serialization_witness:
  "\<not> is_array_index nihao \<and> \<not> is_array_index shijie
   \<and> mset [(test, shijie), (test, nihao)] = mset [(test, nihao), (test, shijie)]
   \<and> reg_wf (insert_all {} [(test, nihao), (test, shijie)] [])
   \<and> writeLocaleFiles (insert_all {} [(test, nihao), (test, shijie)] [])
       = [(js ''test.json'', Document test [(shijie, shijie), (nihao, nihao)])]
   \<and> set (writeLocaleFiles (insert_all {} [(test, shijie), (test, nihao)] []))
       = set (writeLocaleFiles (insert_all {} [(test, nihao), (test, shijie)] []))"
proof -
  have h: "\<forall>p \<in> set [(test, nihao), (test, shijie)]. \<not> is_array_index (snd p)"
    by (simp add: is_array_index_def is_digit_def nihao_def shijie_def)
  have m: "mset [(test, shijie), (test, nihao)] = mset [(test, nihao), (test, shijie)]" by simp
  have ne: "shijie \<noteq> nihao" by (simp add: nihao_def shijie_def)
  have i1: "insert_all {} [(test, nihao), (test, shijie)] [] = [(test, [(nihao, nihao), (shijie, shijie)])]"
    using ne nihao_not_inherited test_not_inherited
    by (simp add: insert_all_def addLocaleMap_def targetModule_def obj_set_def table_add_def
        truthy_entry_def inherited_def shijie_def object_prototype_keys_def js_def)
  have t: "\<not> is_array_index test"
    by (simp add: is_array_index_def is_digit_def test_def js_def)
  have "sorted_list_of_set (set [nihao, shijie]) = sort (remdups [nihao, shijie])"
    by (rule sorted_list_of_set_sort_remdups)
  then have s: "sorted_list_of_set {nihao, shijie} = [shijie, nihao]"
    using shijie_lt_nihao ne by (simp add: not_le)
  note d = dictionary_serialization
    [of "insert_all {} [(test, nihao), (test, shijie)] []" "[(test, nihao), (test, shijie)]" "{}"]
  from d h have wf: "reg_wf (insert_all {} [(test, nihao), (test, shijie)] [])" by blast
  with d have "writeLocaleFiles (insert_all {} [(test, nihao), (test, shijie)] [])
      = map (\<lambda>p. document_of (fst p) (fst ` set (snd p))) (own_entries (insert_all {} [(test, nihao), (test, shijie)] []))"
    by blast
  then have w: "writeLocaleFiles (insert_all {} [(test, nihao), (test, shijie)] [])
       = [(js ''test.json'', Document test [(shijie, shijie), (nihao, nihao)])]"
  proof -
    have j: "js ''test.json'' = test @ js ''.json''" by (simp add: test_def js_def)
    assume "writeLocaleFiles (insert_all {} [(test, nihao), (test, shijie)] [])
      = map (\<lambda>p. document_of (fst p) (fst ` set (snd p))) (own_entries (insert_all {} [(test, nihao), (test, shijie)] []))"
    then show ?thesis
      unfolding i1 j using t by (simp add: own_entries_def document_of_def s)
  qed
  from d h m have o: "set (writeLocaleFiles (insert_all {} [(test, shijie), (test, nihao)] []))
       = set (writeLocaleFiles (insert_all {} [(test, nihao), (test, shijie)] []))"
    by blast
  from h have "\<not> is_array_index nihao \<and> \<not> is_array_index shijie" by simp
  then show ?thesis using m wf w o by blast
qed

section \<open>What a run records\<close>

text \<open>Every function of the engine keeps the registry well formed: it changes it through
  \<^verbatim>\<open>addLocale\<close> only, with texts that are recordable.\<close>

lemma binding_char_not_digit: "is_binding_char c \<Longrightarrow> \<not> is_digit c"
  by (auto simp add: is_binding_char_def is_digit_def is_zh_def)

lemma recordable_not_index: "recordable text \<Longrightarrow> \<not> is_array_index text"
  by (auto simp add: recordable_def is_array_index_def list_ex_iff list_all_iff
      dest: binding_char_not_digit)

lemma zh_recordable: "zhReg_test text \<Longrightarrow> recordable text"
  by (auto simp add: zhReg_test_def recordable_def list_ex_iff is_binding_char_def)

lemma addLocale_wf: "state_wf st \<Longrightarrow> recordable text \<Longrightarrow> state_wf (addLocale cw moduleName text st)"
  by (simp add: state_wf_def addLocale_def reg_wf_addLocaleMap recordable_not_index)

lemma greplace_wf:
  "(\<And>s m rest st. mt s = Some (m, rest) \<Longrightarrow> state_wf st \<Longrightarrow> state_wf (snd (f m st)))
   \<Longrightarrow> state_wf st \<Longrightarrow> state_wf (snd (greplace mt f s st))"
proof (induction mt f s st rule: greplace.induct)
  case (1 mt f st)
  then show ?case by simp
next
  case (2 mt f c cs st)
  note cb = "2.prems"(1)
  show ?case
  proof (cases "mt (c # cs)")
    case None
    have "state_wf (snd (greplace mt f cs st))"
      using "2.IH"(1) [OF None cb "2.prems"(2)] .
    with None show ?thesis by (auto split: prod.splits)
  next
    case (Some p)
    obtain m rest where p: "p = (m, rest)" by (cases p)
    show ?thesis
    proof (cases "length rest \<le> length cs")
      case True
      obtain out st1 where f: "f m st = (out, st1)" by (cases "f m st")
      have "state_wf (snd (f m st))" using cb [of "c # cs" m rest st] Some p "2.prems"(2) by simp
      then have w: "state_wf st1" using f by simp
      have "state_wf (snd (greplace mt f rest st1))"
        using "2.IH"(2) [OF Some p [symmetric] True f [symmetric] cb w] .
      then show ?thesis using Some p True f by (auto split: prod.splits)
    next
      case False
      have "state_wf (snd (greplace mt f cs st))"
        using "2.IH"(3) [OF Some p [symmetric] False cb "2.prems"(2)] .
      then show ?thesis using Some p False by (auto split: prod.splits)
    qed
  qed
qed

lemma match_zh_run_zh: "match_zh_run s = Some (m, rest) \<Longrightarrow> zhReg_test m"
  by (auto simp add: match_zh_run_def zhReg_test_def split: list.splits if_splits)

lemma match_quoted_zh: "match_quoted s = Some (m, rest) \<Longrightarrow> zhReg_test m"
  by (auto simp add: match_quoted_def zhReg_test_def split: list.splits if_splits)

lemma match_attr_zh: "match_attr s = Some ((prefixSpace, attrName, attrValue), rest) \<Longrightarrow> zhReg_test attrValue"
  by (auto simp add: match_attr_def Let_def split: list.splits if_splits)

lemma match_binding_run_chars:
  "match_binding_run s = Some (m, rest) \<Longrightarrow> \<forall>c \<in> set m. is_binding_char c"
  by (auto simp add: match_binding_run_def split: list.splits if_splits dest: set_takeWhileD)

lemma text_run_callback_wf:
  "match_zh_run s = Some (m, rest) \<Longrightarrow> state_wf st \<Longrightarrow> state_wf (snd (text_run_callback cw moduleName m st))"
  by (simp add: text_run_callback_def addLocale_wf zh_recordable match_zh_run_zh)

lemma text_part_wf: "state_wf (snd acc) \<Longrightarrow> state_wf (snd (text_part cw moduleName part acc))"
proof -
  assume a: "state_wf (snd acc)"
  obtain done' st where acc: "acc = (done', st)" by (cases acc)
  have "state_wf (snd (greplace match_zh_run (text_run_callback cw moduleName) part st))"
    using a acc by (intro greplace_wf) (auto intro: text_run_callback_wf)
  then show ?thesis using a acc by (auto simp add: text_part_def split: prod.splits)
qed

lemma tag_text_callback_wf:
  "state_wf st \<Longrightarrow> state_wf (snd (tag_text_callback cw moduleName inner st))"
proof -
  assume a: "state_wf st"
  have "state_wf (snd (fold (text_part cw moduleName)
      (filter_Boolean (gsplit match_mustache [] inner)) ([], st)))"
    by (rule fold_invariant [where P = "\<lambda>acc. state_wf (snd acc)"]) (simp_all add: text_part_wf a)
  then show ?thesis using a by (auto simp add: tag_text_callback_def Let_def split: prod.splits)
qed

lemma tag_text_pass_wf: "state_wf st \<Longrightarrow> state_wf (snd (tag_text_pass cw moduleName t st))"
  unfolding tag_text_pass_def by (rule greplace_wf) (simp_all add: tag_text_callback_wf)

lemma quoted_callback_wf:
  "match_quoted s = Some (m, rest) \<Longrightarrow> state_wf st \<Longrightarrow> state_wf (snd (quoted_callback cw moduleName m st))"
  by (simp add: quoted_callback_def addLocale_wf zh_recordable match_quoted_zh)

lemma interpolation_callback_wf:
  "state_wf st \<Longrightarrow> state_wf (snd (interpolation_callback cw moduleName expression st))"
proof -
  assume a: "state_wf st"
  have "state_wf (snd (greplace match_quoted (quoted_callback cw moduleName) expression st))"
    using a by (intro greplace_wf) (auto intro: quoted_callback_wf)
  then show ?thesis by (auto simp add: interpolation_callback_def split: prod.splits)
qed

lemma interpolation_pass_wf: "state_wf st \<Longrightarrow> state_wf (snd (interpolation_pass cw moduleName t st))"
  unfolding interpolation_pass_def by (rule greplace_wf) (simp_all add: interpolation_callback_wf)

lemma binding_run_callback_wf:
  assumes "match_binding_run s = Some (m, rest)" and "state_wf st"
  shows "state_wf (snd (binding_run_callback cw moduleName m st))"
proof (cases "trim m = []")
  case True
  then show ?thesis using assms(2) by (simp add: binding_run_callback_def)
next
  case False
  then obtain c where "c \<in> set (trim m)" by (cases "trim m") auto
  moreover from this have "is_binding_char c"
    using match_binding_run_chars [OF assms(1)] set_trim [of m] by auto
  ultimately have "recordable (trim m)" by (auto simp add: recordable_def list_ex_iff)
  then show ?thesis using False assms(2) by (simp add: binding_run_callback_def Let_def addLocale_wf)
qed

lemma visit_StringLiteral_wf:
  "state_wf st \<Longrightarrow> state_wf (snd (visit_StringLiteral ext cw moduleName parent key inT v st))"
  by (simp add: visit_StringLiteral_def Let_def addLocale_wf zh_recordable trim_zh)

lemma jsx_part_wf: "state_wf (snd acc) \<Longrightarrow> state_wf (snd (jsx_part cw moduleName part acc))"
  by (cases acc) (simp add: jsx_part_def Let_def addLocale_wf zh_recordable trim_zh)

lemma visit_JSXText_wf: "state_wf st \<Longrightarrow> state_wf (snd (visit_JSXText cw moduleName v st))"
proof -
  assume a: "state_wf st"
  have "state_wf (snd (fold (jsx_part cw moduleName) (split_zh v) ([], st)))"
    by (rule fold_invariant [where P = "\<lambda>acc. state_wf (snd acc)"]) (simp_all add: jsx_part_wf a)
  then show ?thesis using a by (simp add: visit_JSXText_def)
qed

lemma flushPendingQuasi_wf: "tl_state_wf acc \<Longrightarrow> tl_state_wf (flushPendingQuasi acc)"
  by (auto simp add: flushPendingQuasi_def tl_state_wf_def split: prod.splits)

lemma tl_segment_wf: "tl_state_wf acc \<Longrightarrow> tl_state_wf (tl_segment cw moduleName mk segment acc)"
  using flushPendingQuasi_wf [of acc]
  by (auto simp add: tl_segment_def tl_state_wf_def addLocale_wf zh_recordable split: prod.splits)

lemma tl_loop_wf:
  "tl_state_wf acc \<Longrightarrow> tl_state_wf (tl_loop cw moduleName mk quasis expressions acc)"
proof (induction quasis arbitrary: expressions acc)
  case Nil
  then show ?case by simp
next
  case (Cons q quasis)
  have "tl_state_wf (fold (tl_segment cw moduleName mk) (split_zh (raw q)) acc)"
    by (rule fold_invariant [where P = tl_state_wf]) (simp_all add: tl_segment_wf Cons.prems)
  then have f: "tl_state_wf (flushPendingQuasi (fold (tl_segment cw moduleName mk) (split_zh (raw q)) acc))"
    by (rule flushPendingQuasi_wf)
  obtain nq ne pend st where r:
    "flushPendingQuasi (fold (tl_segment cw moduleName mk) (split_zh (raw q)) acc) = (nq, ne, pend, st)"
    by (metis prod_cases4)
  from f r have w: "state_wf st" by (simp add: tl_state_wf_def)
  show ?case
  proof (cases expressions)
    case Nil
    then show ?thesis using r w Cons.IH [of "(nq, ne, pend, st)" "[]"] by (simp add: tl_state_wf_def)
  next
    case (Cons e es)
    then show ?thesis
      using r w Cons.IH [of "(nq @ [emptyQuasi], ne @ [e], pend, st)" es] by (simp add: tl_state_wf_def)
  qed
qed

lemma rewriteTemplateLiteral_wf:
  "state_wf st \<Longrightarrow> state_wf (snd (snd (rewriteTemplateLiteral cw moduleName mk quasis expressions st)))"
  using tl_loop_wf [of "([], [], [], st)" cw moduleName mk quasis expressions]
  by (auto simp add: rewriteTemplateLiteral_def tl_state_wf_def split: prod.splits)

lemma traverse_wf:
  "state_wf st \<Longrightarrow> state_wf (snd (traverse_node full ext cw moduleName parent key inT n st))"
  "state_wf st \<Longrightarrow> state_wf (snd (traverse_list full ext cw moduleName parent key inT ns st))"
proof (induction full ext cw moduleName parent key inT n st
         and full ext cw moduleName parent key inT ns st
    rule: traverse_node_traverse_list.induct)
  case (1 full ext cw moduleName parent key inT "value" st)
  then show ?case
    using visit_StringLiteral_wf [of st ext cw moduleName parent key inT "value"]
    by (auto split: prod.splits sum.splits)
next
  case (2 full ext cw moduleName parent key inT name st)
  then show ?case by simp
next
  case (3 full ext cw moduleName parent key inT "value" st)
  then show ?case
    using visit_JSXText_wf [of st cw moduleName "value"] by (auto split: prod.splits)
next
  case (4 full ext cw moduleName parent key inT quasis expressions transformed st)
  show ?case
  proof (cases "full \<and> \<not> transformed \<and> list_ex (\<lambda>q. zhReg_test (raw q)) quasis")
    case True
    obtain nq ne st1 where r: "rewriteTemplateLiteral cw moduleName
        (\<lambda>segment. Inl (getTCallExpression cw segment moduleName))
        quasis (map Inr [0..<length expressions]) st = (nq, ne, st1)"
      by (metis prod_cases3)
    have w1: "state_wf st1"
      using rewriteTemplateLiteral_wf [OF "4.prems", of cw moduleName
          "\<lambda>segment. Inl (getTCallExpression cw segment moduleName)" quasis "map Inr [0..<length expressions]"]
        r by simp
    show ?thesis
    proof (cases "length nq \<noteq> length ne + 1")
      case c: True
      then show ?thesis using True r w1 by simp
    next
      case c: False
      have "state_wf (snd (traverse_list full ext cw moduleName ''TemplateLiteral'' 0 False expressions st1))"
        using "4.IH"(1) [OF True r [symmetric] refl c w1] .
      then show ?thesis using True r c by (auto split: prod.splits sum.splits)
    qed
  next
    case False
    have "state_wf (snd (traverse_list full ext cw moduleName ''TemplateLiteral'' 0 False expressions st))"
      using "4.IH"(2) [OF False "4.prems"] .
    then show ?thesis using False by (auto split: prod.splits sum.splits)
  qed
next
  case (5 full ext cw moduleName parent key inT kind children st)
  then show ?case by (auto split: prod.splits sum.splits)
next
  case (6 full ext cw moduleName parent key inT st)
  then show ?case by simp
next
  case (7 full ext cw moduleName parent key inT n ns st)
  obtain r st1 where a: "traverse_node full ext cw moduleName parent key inT n st = (r, st1)"
    by (cases "traverse_node full ext cw moduleName parent key inT n st")
  have w1: "state_wf st1" using "7.IH"(1) [OF "7.prems"] a by simp
  show ?case
  proof (cases r)
    case (Inl err)
    then show ?thesis using a w1 by simp
  next
    case (Inr x)
    have "state_wf (snd (traverse_list full ext cw moduleName parent (Suc key) inT ns st1))"
      using "7.IH"(2) [OF a [symmetric] Inr w1] .
    then show ?thesis using a Inr by (auto split: prod.splits sum.splits)
  qed
qed

lemma traverse_top_wf: "state_wf st \<Longrightarrow> state_wf (snd (traverse full ext cw moduleName body st))"
  using traverse_wf(2) [of st full ext cw moduleName "''Program''" 0 False body]
  by (auto simp add: traverse_def split: prod.splits sum.splits)

lemma warnings_wf: "state_wf st \<Longrightarrow> state_wf (st\<lparr>warnings := w\<rparr>)"
  by (simp add: state_wf_def)

lemma transformBindingExpression_wf:
  assumes "state_wf st"
  shows "state_wf (snd (transformBindingExpression ext cw expression moduleName st))"
proof (cases "parse_binding ext (js ''const __temp = '' @ expression @ js '';'')")
  case (Inl err)
  then show ?thesis using assms by (simp add: transformBindingExpression_def warnings_wf)
next
  case (Inr ast)
  obtain r st1 where t: "traverse False ext cw moduleName ast st = (r, st1)"
    by (cases "traverse False ext cw moduleName ast st")
  have w: "state_wf st1" using traverse_top_wf [OF assms, of False ext cw moduleName ast] t by simp
  have g: "state_wf (snd (greplace match_binding_run (binding_run_callback cw moduleName) code st1))" for code
    using w by (intro greplace_wf) (auto intro: binding_run_callback_wf)
  show ?thesis
    using Inr t w g
    by (cases r) (auto simp add: transformBindingExpression_def Let_def warnings_wf split: option.splits)
qed

lemma attr_callback_wf:
  assumes "match_attr s = Some (m, rest)" and "state_wf st"
  shows "state_wf (snd (attr_callback ext cw moduleName m st))"
proof -
  obtain prefixSpace attrName attrValue where m: "m = (prefixSpace, attrName, attrValue)"
    by (cases m)
  have z: "zhReg_test attrValue" using assms(1) m by (simp add: match_attr_zh)
  have b: "state_wf (snd (transformBindingExpression ext cw attrValue moduleName st))"
    using assms(2) by (rule transformBindingExpression_wf)
  show ?thesis
    using assms(2) b z
    by (auto simp add: m attr_callback_def Let_def addLocale_wf zh_recordable trim_zh split: prod.splits)
qed

lemma attribute_pass_wf: "state_wf st \<Longrightarrow> state_wf (snd (attribute_pass ext cw moduleName t st))"
  unfolding attribute_pass_def by (rule greplace_wf) (auto intro: attr_callback_wf)

lemma transformTemplate_wf:
  assumes "state_wf st"
  shows "state_wf (snd (transformTemplate ext cw t moduleName st))"
proof -
  obtain t1 st1 where 1: "attribute_pass ext cw moduleName t st = (t1, st1)"
    by (cases "attribute_pass ext cw moduleName t st")
  obtain t2 st2 where 2: "tag_text_pass cw moduleName t1 st1 = (t2, st2)"
    by (cases "tag_text_pass cw moduleName t1 st1")
  obtain t3 st3 where 3: "interpolation_pass cw moduleName t2 st2 = (t3, st3)"
    by (cases "interpolation_pass cw moduleName t2 st2")
  have w1: "state_wf st1" using attribute_pass_wf [OF assms, of ext cw moduleName t] 1 by simp
  have w2: "state_wf st2" using tag_text_pass_wf [OF w1, of cw moduleName t1] 2 by simp
  have w3: "state_wf st3" using interpolation_pass_wf [OF w2, of cw moduleName t2] 3 by simp
  show ?thesis
    using tag_text_pass_wf [OF w3, of cw moduleName t3] by (simp add: transformTemplate_def 1 2 3)
qed

lemma transformScript_wf:
  assumes "state_wf st"
  shows "state_wf (snd (transformScript ext cw code moduleName st))"
proof (cases "parse_script ext code")
  case (Inl err)
  then show ?thesis using assms by (simp add: transformScript_def)
next
  case (Inr ast)
  obtain r st1 where t: "traverse True ext cw moduleName ast st = (r, st1)"
    by (cases "traverse True ext cw moduleName ast st")
  have "state_wf st1" using traverse_top_wf [OF assms, of True ext cw moduleName ast] t by simp
  then show ?thesis using Inr t by (cases r) (simp_all add: transformScript_def)
qed

lemma processVueFile_wf:
  assumes "state_wf st"
  shows "state_wf (snd (processVueFile ext parseSFC cw srcContent moduleName st))"
proof -
  let ?tt = "block_content (template (parseSFC srcContent))"
  let ?sc = "block_content (scriptSetup (parseSFC srcContent))"
  obtain newTemplate st1 where 1:
    "(if ?tt \<noteq> [] then transformTemplate ext cw ?tt moduleName st else ([], st)) = (newTemplate, st1)"
    by (cases "if ?tt \<noteq> [] then transformTemplate ext cw ?tt moduleName st else ([], st)")
  have w1: "state_wf st1"
    using 1 assms transformTemplate_wf [OF assms, of ext cw ?tt moduleName]
    by (auto split: if_splits)
  obtain r st2 where 2:
    "(if ?sc \<noteq> [] then transformScript ext cw ?sc moduleName st1 else (Inr [], st1)) = (r, st2)"
    by (cases "if ?sc \<noteq> [] then transformScript ext cw ?sc moduleName st1 else (Inr [], st1)")
  have w2: "state_wf st2"
    using 2 w1 transformScript_wf [OF w1, of ext cw ?sc moduleName]
    by (auto split: if_splits)
  show ?thesis
    unfolding processVueFile_def Let_def 1 using 2 w2 by (cases r) simp_all
qed

lemma processTsFile_wf:
  "state_wf st \<Longrightarrow> state_wf (snd (processTsFile ext cw code moduleName st))"
  by (simp add: processTsFile_def transformScript_wf)

lemma st0_wf: "state_wf st0"
  by (simp add: state_wf_def st0_def reg_wf_def)

section \<open>Bindings that do not parse\<close>

text \<open>
  Claim C6. When the fragment of a binding does not parse, \<^verbatim>\<open>transformBindingExpression\<close>
  writes its warning and returns the fragment as it was, as a value and not as an error,
  and the registry is unchanged; the attribute pass then writes the dynamic attribute
  back character for character.
\<close>

theorem binding_parse_failure:
  assumes "parse_binding ext (js ''const __temp = '' @ expression @ js '';'') = Inl err"
  shows "transformBindingExpression ext cw expression moduleName st =
           (expression, st\<lparr>warnings := warnings st @ [ExpressionFailed expression, ErrorObject err]\<rparr>)
     \<and> localeMap (snd (transformBindingExpression ext cw expression moduleName st)) = localeMap st
     \<and> (isDynamic attrName \<and> trim expression \<noteq> [] \<and> \<not> regex_test match_t_call expression \<longrightarrow>
          fst (attr_callback ext cw moduleName (prefixSpace, attrName, expression) st)
            = prefixSpace # attrName @ js ''='' @ [dquote] @ expression @ [dquote]
          \<and> localeMap (snd (attr_callback ext cw moduleName (prefixSpace, attrName, expression) st))
            = localeMap st)"
proof -
  have r: "transformBindingExpression ext cw expression moduleName st =
           (expression, st\<lparr>warnings := warnings st @ [ExpressionFailed expression, ErrorObject err]\<rparr>)"
    using assms by (simp add: transformBindingExpression_def)
  then show ?thesis
    by (simp add: attr_callback_def js_def)
qed

theorem binding_parse_failure_witness:
  "parse_binding rejecting (js ''const __temp = '' @ dangling @ js '';'')
     = Inl (SyntaxError (js ''const __temp = '' @ dangling @ js '';''))
   \<and> isDynamic (js '':title'') \<and> trim dangling \<noteq> [] \<and> \<not> regex_test match_t_call dangling
   \<and> transformBindingExpression rejecting {} dangling test st0 =
       (dangling, \<lparr>localeMap = [], warnings = [ExpressionFailed dangling,
          ErrorObject (SyntaxError (js ''const __temp = '' @ dangling @ js '';''))]\<rparr>)
   \<and> fst (attr_callback rejecting {} test (0x20, js '':title'', dangling) st0)
       = js '' :title='' @ [dquote] @ dangling @ [dquote]
   \<and> localeMap (snd (attr_callback rejecting {} test (0x20, js '':title'', dangling) st0)) = []"
proof -
  have h: "parse_binding rejecting (js ''const __temp = '' @ dangling @ js '';'')
     = Inl (SyntaxError (js ''const __temp = '' @ dangling @ js '';''))"
    by (simp add: rejecting_def)
  have d: "isDynamic (js '':title'')" by (simp add: isDynamic_def startsWith_def js_def)
  have t: "trim dangling \<noteq> []"
    by (simp add: trim_def dangling_def char_defs is_space_def)
  have g: "\<not> regex_test match_t_call dangling"
    by (simp add: dangling_def char_defs match_t_call_def startsWith_def)
  note b = binding_parse_failure [OF h, of "{}" test st0 "js '':title''" "0x20"]
  from b d t g show ?thesis
    using h by (simp add: st0_def js_def)
qed

section \<open>Static attributes\<close>









text \<open>
  Two things the pass does outside of that statement. The key is put between the single
  quotes as it is, so a value with a single quote in it gives an expression that is not a
  call of \<^verbatim>\<open>$t\<close> on one string literal: \<^verbatim>\<open>title="\u4f60\u597d'\u4e16\u754c'"\<close> becomes
  \<^verbatim>\<open>:title="$t('test.\u4f60\u597d'\u4e16\u754c'')"\<close> (the calls that \<^verbatim>\<open>getTCallExpression\<close> builds are
  printed by the generator, which escapes the quote). And a name is taken for static when
  it begins neither with \<^verbatim>\<open>:\<close> nor with \<^verbatim>\<open>v-bind\<close>, so a directive such as \<^verbatim>\<open>v-if\<close>
  is rewritten like a static attribute: \<^verbatim>\<open>v-if="\u4f60\u597d"\<close> becomes
  \<^verbatim>\<open>:v-if="$t('test.\u4f60\u597d')"\<close>.
\<close>

lemma apostrophe_not_escaped:
  "attribute_pass ext {} test apostrophe_unit st
     = (apostrophe_bound, addLocale {} test (nihao @ [squote] @ shijie @ [squote]) st)"
  "t_call_argument (js ''$t('' @ [squote] @ js ''test.'' @ nihao @ [squote] @ shijie @ [squote]
     @ [squote] @ js '')'') = None"
  by (simp_all add: attribute_pass_def apostrophe_unit_def apostrophe_bound_def char_defs class_defs
      match_attr_def attr_callback_def trim_def isDynamic_def translation_key_def targetModule_def
      startsWith_def zhReg_test_def t_call_argument_def)

lemma directive_taken_as_static:
  "attribute_pass ext {} test directive_unit st = (directive_bound, addLocale {} test nihao st)"
  by (simp add: attribute_pass_def directive_unit_def directive_bound_def char_defs class_defs
      match_attr_def attr_callback_def trim_def isDynamic_def translation_key_def targetModule_def
      startsWith_def zhReg_test_def)


text \<open>Text and an interpolation between two tags: \<^verbatim>\<open><p>\u4f60\u597d {{ '\u4e16\u754c' }}</p>\<close> becomes
  \<^verbatim>\<open><p>{{ $t('test.\u4f60\u597d') }} {{ $t('test.\u4e16\u754c') }}</p>\<close>, the first call written by the
  tag-text pass, the second by the interpolation pass.\<close>

lemma greeting_unit_transformed:
  "transformTemplate ext {} greeting_unit test st =
     (greeting_bound, addLocale {} test shijie (addLocale {} test nihao st))"
proof -
  have a: "attribute_pass ext {} test greeting_unit st = (greeting_unit, st)"
    by (simp add: attribute_pass_def greeting_unit_def char_defs class_defs match_attr_def)
  have b: "tag_text_pass {} test greeting_unit st = (greeting_text, addLocale {} test nihao st)"
    by (simp add: tag_text_pass_def greeting_unit_def greeting_text_def char_defs class_defs match_defs
        tag_text_callback_def filter_Boolean_def text_part_def text_run_callback_def
        translation_key_def targetModule_def)
  have c: "interpolation_pass {} test greeting_text stx
      = (greeting_bound, addLocale {} test shijie stx)" for stx
    by (simp add: interpolation_pass_def greeting_text_def greeting_bound_def char_defs class_defs
        match_defs interpolation_callback_def quoted_callback_def translation_key_def targetModule_def)
  have d: "tag_text_pass {} test greeting_bound stx = (greeting_bound, stx)" for stx
    by (simp add: tag_text_pass_def greeting_bound_def char_defs class_defs match_defs
        tag_text_callback_def)
  show ?thesis by (simp add: transformTemplate_def a b c d)
qed

section \<open>Quoted literals in interpolations\<close>

lemma match_interpolation_pair:
  assumes "\<forall>c \<in> set expression. \<not> is_brace c"
  shows "match_interpolation (js ''{{'' @ expression @ js ''}}'' @ rest) = Some (expression, rest)"
proof -
  have b: "\<not> \<not> is_brace 125" by (simp add: is_brace_def)
  have s: "js ''{{'' @ expression @ js ''}}'' @ rest = 123 # 123 # expression @ 125 # 125 # rest"
    by (simp add: js_def)
  show ?thesis
    unfolding s match_interpolation_def
    using takeWhile_stop [OF assms b, of "125 # rest"] dropWhile_stop [OF assms b, of "125 # rest"]
    by (simp add: startsWith_def js_def)
qed

lemma match_quoted_literal:
  assumes "is_quote q" and "is_zh z" and "\<forall>c \<in> set body. \<not> is_quote c"
  shows "match_quoted (q # z # body @ q # rest) = Some (z # body, rest)"
proof -
  have b: "\<not> \<not> is_quote q" using assms(1) by simp
  show ?thesis
    unfolding match_quoted_def
    using takeWhile_stop [OF assms(3) b, of rest] dropWhile_stop [OF assms(3) b, of rest] assms(1,2)
    by simp
qed

text \<open>A match that begins before a pair of delimiters ends before it, and a match that
  begins before a quote ends at the latest with that quote.\<close>

lemma quote_not_zh: "is_quote q \<Longrightarrow> \<not> is_zh q"
  by (auto simp add: is_quote_def is_zh_def squote_def dquote_def)

lemma match_quoted_context:
  assumes "s \<noteq> []" and "is_quote q" and "match_quoted (s @ [q]) = None"
  shows "match_quoted (s @ q # Y) = None"
proof (cases s)
  case Nil
  then show ?thesis using assms(1) by simp
next
  case s: (Cons a s1)
  show ?thesis
  proof (cases s1)
    case Nil
    then show ?thesis using s quote_not_zh [OF assms(2)] by (simp add: match_quoted_def)
  next
    case (Cons z r)
    show ?thesis
    proof (cases "\<forall>x \<in> set r. \<not> is_quote x")
      case True
      have b: "\<not> \<not> is_quote q" using assms(2) by simp
      show ?thesis
        using assms(3) s Cons dropWhile_stop [OF True b, of "[]"] dropWhile_stop [OF True b, of Y]
        by (simp add: match_quoted_def split: if_splits)
    next
      case False
      then obtain x where x: "x \<in> set r" "\<not> \<not> is_quote x" by auto
      have d: "dropWhile (\<lambda>c. \<not> is_quote c) (r @ ys) = dropWhile (\<lambda>c. \<not> is_quote c) r @ ys" for ys
        using x by (rule dropWhile_append1)
      have n: "dropWhile (\<lambda>c. \<not> is_quote c) r \<noteq> []" using x by (auto simp add: dropWhile_eq_Nil_conv)
      show ?thesis
        using assms(3) s Cons n
        by (cases "dropWhile (\<lambda>c. \<not> is_quote c) r") (simp_all add: match_quoted_def d split: if_splits)
    qed
  qed
qed

lemma match_interpolation_context:
  assumes "s \<noteq> []" and "match_interpolation (s @ js ''{{'') = None"
  shows "match_interpolation (s @ js ''{{'' @ Y) = None"
proof (cases s)
  case Nil
  then show ?thesis using assms(1) by simp
next
  case s: (Cons a s1)
  show ?thesis
  proof (cases s1)
    case Nil
    then show ?thesis using s
      by (simp add: match_interpolation_def startsWith_def js_def is_brace_def)
  next
    case (Cons b r)
    show ?thesis
    proof (cases "a = 0x7B \<and> b = 0x7B")
      case False
      then show ?thesis using s Cons
        by (auto simp add: match_interpolation_def startsWith_def js_def)
    next
      case ab: True
      show ?thesis
      proof (cases "\<forall>x \<in> set r. \<not> is_brace x")
        case True
        have o: "\<not> \<not> is_brace 0x7B" by (simp add: is_brace_def)
        show ?thesis
          using s Cons ab dropWhile_stop [OF True o, of "0x7B # Y"]
          by (simp add: match_interpolation_def startsWith_def js_def)
      next
        case False
        then obtain x where x: "x \<in> set r" "\<not> \<not> is_brace x" by auto
        have d: "dropWhile (\<lambda>c. \<not> is_brace c) (r @ ys) = dropWhile (\<lambda>c. \<not> is_brace c) r @ ys" for ys
          using x by (rule dropWhile_append1)
        have n: "dropWhile (\<lambda>c. \<not> is_brace c) r \<noteq> []" using x by (auto simp add: dropWhile_eq_Nil_conv)
        show ?thesis
        proof (cases "dropWhile (\<lambda>c. \<not> is_brace c) r")
          case Nil
          then show ?thesis using n by simp
        next
          case r0: (Cons c r1)
          show ?thesis
            using assms(2) s Cons ab r0 d [of "0x7B # 0x7B # Y"] d [of "[0x7B, 0x7B]"]
            by (cases r1) (simp_all add: match_interpolation_def startsWith_def js_def split: if_splits)
        qed
      qed
    qed
  qed
qed


lemma inner_unit_interpolation: "interpolation_pass {} test inner_unit st = (inner_unit, st)"
  by (simp add: interpolation_pass_def inner_unit_def char_defs class_defs match_defs
      interpolation_callback_def quoted_callback_def)

lemma inner_unit_attribute: "attribute_pass ext {} test inner_unit st = (inner_unit, st)"
  by (simp add: attribute_pass_def inner_unit_def char_defs class_defs match_attr_def)

lemma inner_unit_text: "tag_text_pass {} test inner_unit st = (inner_unit, st)"
  by (simp add: tag_text_pass_def inner_unit_def char_defs class_defs match_defs
      tag_text_callback_def filter_Boolean_def text_part_def)

text \<open>
  Claim C7, as stated: the quoted literal \<^verbatim>\<open>'a\u4f60\u597d'\<close> has target characters in it,
  and the interpolation pass, and the whole of \<^verbatim>\<open>transformTemplate\<close>, leave
  \<^verbatim>\<open><p>{{ 'a\u4f60\u597d' }}</p>\<close> as it is and record nothing.
\<close>

theorem inner_literal_not_replaced:
  "zhReg_test (js ''a'' @ nihao)
   \<and> interpolation_pass {} test inner_unit st0 = (inner_unit, st0)
   \<and> transformTemplate rejecting {} inner_unit test st0 = (inner_unit, st0)
   \<and> localeMap st0 = []"
  by (simp add: transformTemplate_def inner_unit_attribute inner_unit_text inner_unit_interpolation)
     (simp add: zhReg_test_def is_zh_def nihao_def js_def st0_def)

text \<open>
  Claim C7, amended. A pair of interpolation delimiters whose text has no brace stands
  anywhere in the template, behind a text \<open>pre\<close> in which, taken up to the opening
  delimiters, the pattern of the pass has no match (so the scan reaches the pair). The pass
  copies \<open>pre\<close>, rewrites the text of the pair and goes on with the text behind it; a text
  in which the pattern has no match is copied as it is. Inside the pair, a quoted literal
  that begins with a target character right behind its opening quote, has no quote inside
  and ends with the same quote, behind a text \<open>before\<close> in which, taken up to the opening
  quote, the pattern of the quoted literals has no match, is replaced with the translation
  call holding the resolved key, and the text between the quotes is recorded; \<open>before\<close>
  is copied, and so is a text in which that pattern has no match, such as the literal
  \<^verbatim>\<open>'a\u4f60\u597d'\<close>. The example is \<^verbatim>\<open><p>{{ 'a' + '\u4f60\u597d' }}</p>\<close>, which becomes
  \<^verbatim>\<open><p>{{ 'a' + $t('test.\u4f60\u597d') }}</p>\<close>.
\<close>

theorem interpolation_quoted_literals:
  "(\<not> matches_in match_interpolation (pre @ js ''{{'') \<and> (\<forall>c \<in> set expression. \<not> is_brace c) \<longrightarrow>
      interpolation_pass cw moduleName (pre @ js ''{{'' @ expression @ js ''}}'' @ rest) st =
        (case greplace match_quoted (quoted_callback cw moduleName) expression st of
           (replaced, st1) \<Rightarrow>
             (case interpolation_pass cw moduleName rest st1 of
                (out, st2) \<Rightarrow> (pre @ js ''{{'' @ replaced @ js ''}}'' @ out, st2))))
   \<and> (\<not> matches_in match_interpolation remainder \<longrightarrow>
      interpolation_pass cw moduleName remainder st3 = (remainder, st3))
   \<and> (\<not> matches_in match_quoted (before @ [q]) \<and> is_quote q \<and> is_zh z
        \<and> (\<forall>c \<in> set body. \<not> is_quote c) \<longrightarrow>
      greplace match_quoted (quoted_callback cw moduleName) (before @ q # z # body @ q # rest') st' =
        (case greplace match_quoted (quoted_callback cw moduleName) rest'
                (addLocale cw moduleName (z # body) st') of
           (out, st2) \<Rightarrow>
             (before @ js ''$t('' @ [squote] @ translation_key cw moduleName (z # body) @ [squote]
                @ js '')'' @ out, st2)))
   \<and> (\<not> matches_in match_quoted remainder' \<longrightarrow>
      greplace match_quoted (quoted_callback cw moduleName) remainder' st'' = (remainder', st''))"
proof (intro conjI impI)
  assume a: "\<not> matches_in match_interpolation (pre @ js ''{{'') \<and> (\<forall>c \<in> set expression. \<not> is_brace c)"
  let ?head = "js ''{{'' @ expression @ js ''}}'' @ rest"
  have s: "?head = 123 # (123 # expression @ js ''}}'' @ rest)"
    by (simp add: js_def)
  have a1: "\<not> matches_in match_interpolation (pre @ js ''{{'')" by (rule a [THEN conjunct1])
  have a2: "\<forall>c \<in> set expression. \<not> is_brace c" by (rule a [THEN conjunct2])
  have m: "match_interpolation (123 # (123 # expression @ js ''}}'' @ rest)) = Some (expression, rest)"
    using match_interpolation_pair [OF a2, of rest] by (simp add: js_def)
  have l: "length rest \<le> length (123 # expression @ js ''}}'' @ rest)" by simp
  have h: "interpolation_pass cw moduleName ?head st =
        (case greplace match_quoted (quoted_callback cw moduleName) expression st of
           (replaced, st1) \<Rightarrow>
             (case interpolation_pass cw moduleName rest st1 of
                (out, st2) \<Rightarrow> (js ''{{'' @ replaced @ js ''}}'' @ out, st2)))"
    unfolding interpolation_pass_def s greplace_Cons_Some [where mt = match_interpolation, OF m l]
    by (simp add: interpolation_callback_def split: prod.splits)
  have n: "match_interpolation (s @ ?head) = None" if "s \<noteq> []" and "suffix s pre" for s
  proof -
    have "suffix (s @ js ''{{'') (pre @ js ''{{'')" using that(2) by simp
    with a1 have "match_interpolation (s @ js ''{{'') = None"
      by (rule matches_in_suffix)
    then have "match_interpolation (s @ js ''{{'' @ expression @ js ''}}'' @ rest) = None"
      by (rule match_interpolation_context [OF that(1)])
    then show ?thesis .
  qed
  have "interpolation_pass cw moduleName (pre @ ?head) st =
        (case interpolation_pass cw moduleName ?head st of (out, st') \<Rightarrow> (pre @ out, st'))"
    unfolding interpolation_pass_def by (rule greplace_skip) (rule n)
  then show "interpolation_pass cw moduleName (pre @ js ''{{'' @ expression @ js ''}}'' @ rest) st =
        (case greplace match_quoted (quoted_callback cw moduleName) expression st of
           (replaced, st1) \<Rightarrow>
             (case interpolation_pass cw moduleName rest st1 of
                (out, st2) \<Rightarrow> (pre @ js ''{{'' @ replaced @ js ''}}'' @ out, st2)))"
    unfolding h by (simp split: prod.splits)
next
  assume "\<not> matches_in match_interpolation remainder"
  then show "interpolation_pass cw moduleName remainder st3 = (remainder, st3)"
    unfolding interpolation_pass_def by (rule greplace_no_match)
next
  assume a: "\<not> matches_in match_quoted (before @ [q]) \<and> is_quote q \<and> is_zh z
        \<and> (\<forall>c \<in> set body. \<not> is_quote c)"
  let ?head = "q # z # body @ q # rest'"
  have a1: "\<not> matches_in match_quoted (before @ [q])" by (rule a [THEN conjunct1])
  have a2: "is_quote q" by (rule a [THEN conjunct2, THEN conjunct1])
  have a3: "is_zh z" by (rule a [THEN conjunct2, THEN conjunct2, THEN conjunct1])
  have a4: "\<forall>c \<in> set body. \<not> is_quote c" by (rule a [THEN conjunct2, THEN conjunct2, THEN conjunct2])
  have m: "match_quoted ?head = Some (z # body, rest')"
    using a2 a3 a4 by (rule match_quoted_literal)
  have l: "length rest' \<le> length (z # body @ q # rest')" by simp
  have h: "greplace match_quoted (quoted_callback cw moduleName) ?head st' =
        (case greplace match_quoted (quoted_callback cw moduleName) rest'
                (addLocale cw moduleName (z # body) st') of
           (out, st2) \<Rightarrow>
             (js ''$t('' @ [squote] @ translation_key cw moduleName (z # body) @ [squote] @ js '')''
                @ out, st2))"
    unfolding greplace_Cons_Some [where mt = match_quoted, OF m l] by (simp add: quoted_callback_def)
  have n: "match_quoted (s @ ?head) = None" if "s \<noteq> []" and "suffix s before" for s
  proof -
    have "suffix (s @ [q]) (before @ [q])" using that(2) by simp
    with a1 have "match_quoted (s @ [q]) = None"
      by (rule matches_in_suffix)
    with that(1) a2 show ?thesis
      by (rule match_quoted_context)
  qed
  have "greplace match_quoted (quoted_callback cw moduleName) (before @ ?head) st' =
        (case greplace match_quoted (quoted_callback cw moduleName) ?head st' of
           (out, st2) \<Rightarrow> (before @ out, st2))"
    by (rule greplace_skip) (rule n)
  then show "greplace match_quoted (quoted_callback cw moduleName) (before @ q # z # body @ q # rest') st' =
        (case greplace match_quoted (quoted_callback cw moduleName) rest'
                (addLocale cw moduleName (z # body) st') of
           (out, st2) \<Rightarrow>
             (before @ js ''$t('' @ [squote] @ translation_key cw moduleName (z # body) @ [squote]
                @ js '')'' @ out, st2))"
    unfolding h by (simp split: prod.splits)
next
  assume "\<not> matches_in match_quoted remainder'"
  then show "greplace match_quoted (quoted_callback cw moduleName) remainder' st'' = (remainder', st'')"
    by (rule greplace_no_match)
qed

theorem interpolation_quoted_literals_witness:
  "\<not> matches_in match_interpolation (js ''<p>{{'') \<and> \<not> matches_in match_interpolation (js ''</p>'')
   \<and> \<not> matches_in match_quoted (js '' '' @ [squote] @ js ''a'' @ [squote] @ js '' + '' @ [squote])
   \<and> is_quote squote \<and> is_zh 0x4F60 \<and> \<not> matches_in match_quoted (js '' '')
   \<and> interpolation_pass {} test sum_unit st0 = (sum_bound, addLocale {} test nihao st0)"
proof -
  let ?before = "js '' '' @ [squote] @ js ''a'' @ [squote] @ js '' + ''"
  let ?expression = "?before @ squote # 0x4F60 # [0x597D] @ squote # js '' ''"
  have h1: "\<not> matches_in match_interpolation (js ''<p>'' @ js ''{{'')"
    by (simp add: matches_in_def char_defs class_defs match_defs startsWith_def)
  have h2: "\<forall>c \<in> set ?expression. \<not> is_brace c"
    by (simp add: is_brace_def char_defs)
  have h3: "\<not> matches_in match_interpolation (js ''</p>'')"
    by (simp add: matches_in_def char_defs class_defs match_defs startsWith_def)
  have h4: "\<not> matches_in match_quoted (?before @ [squote])"
    by (simp add: matches_in_def char_defs class_defs match_defs)
  have q: "is_quote squote" by (simp add: is_quote_def)
  have z: "is_zh 0x4F60" by (simp add: is_zh_def)
  have b: "\<forall>c \<in> set [0x597D]. \<not> is_quote c" by (simp add: is_quote_def char_defs)
  have h5: "\<not> matches_in match_quoted (js '' '')"
    by (simp add: matches_in_def char_defs class_defs match_defs)
  note t = interpolation_quoted_literals [where cw = "{}" and moduleName = test]
  from t [where pre = "js ''<p>''" and expression = ?expression and rest = "js ''</p>''" and st = st0] h1 h2
  have p1: "interpolation_pass {} test (js ''<p>'' @ js ''{{'' @ ?expression @ js ''}}'' @ js ''</p>'') st0 =
        (case greplace match_quoted (quoted_callback {} test) ?expression st0 of
           (replaced, st1) \<Rightarrow>
             (case interpolation_pass {} test (js ''</p>'') st1 of
                (out, st2) \<Rightarrow> (js ''<p>'' @ js ''{{'' @ replaced @ js ''}}'' @ out, st2)))"
    by blast
  from t [where remainder = "js ''</p>''"] h3
  have p2: "interpolation_pass {} test (js ''</p>'') stx = (js ''</p>'', stx)" for stx
    by blast
  from t [where before = ?before and q = squote and z = "0x4F60" and body = "[0x597D]"
          and rest' = "js '' ''" and st' = st0] h4 q z b
  have p3: "greplace match_quoted (quoted_callback {} test) ?expression st0 =
        (case greplace match_quoted (quoted_callback {} test) (js '' '')
                (addLocale {} test (0x4F60 # [0x597D]) st0) of
           (out, st2) \<Rightarrow>
             (?before @ js ''$t('' @ [squote] @ translation_key {} test (0x4F60 # [0x597D]) @ [squote]
                @ js '')'' @ out, st2))"
    by blast
  from t [where remainder' = "js '' ''"] h5
  have p4: "greplace match_quoted (quoted_callback {} test) (js '' '') stx = (js '' '', stx)" for stx
    by blast
  have u: "sum_unit = js ''<p>'' @ js ''{{'' @ ?expression @ js ''}}'' @ js ''</p>''"
    by (simp add: sum_unit_def char_defs)
  have k: "translation_key {} test (0x4F60 # [0x597D]) = js ''test.'' @ nihao"
    by (simp add: translation_key_def targetModule_def char_defs)
  have n: "addLocale {} test (0x4F60 # [0x597D]) st0 = addLocale {} test nihao st0"
    by (simp add: nihao_def)
  have r: "interpolation_pass {} test sum_unit st0 = (sum_bound, addLocale {} test nihao st0)"
    unfolding u p1 p3 p4 p2 k n by (simp add: sum_bound_def char_defs)
  have h1': "\<not> matches_in match_interpolation (js ''<p>{{'')" using h1 by (simp add: js_def)
  have h4': "\<not> matches_in match_quoted (js '' '' @ [squote] @ js ''a'' @ [squote] @ js '' + '' @ [squote])"
    using h4 by simp
  show ?thesis using h1' h3 h4' q z h5 r by simp
qed

section \<open>A second run\<close>

lemma quoted_unit_attribute: "attribute_pass ext {} test quoted_unit st = (quoted_unit, st)"
  by (simp add: attribute_pass_def quoted_unit_def char_defs class_defs match_attr_def)

lemma quoted_unit_text: "tag_text_pass {} test quoted_unit st = (quoted_unit, st)"
  by (simp add: tag_text_pass_def quoted_unit_def char_defs class_defs match_defs
      tag_text_callback_def filter_Boolean_def text_part_def)

lemma quoted_unit_interpolation:
  "interpolation_pass {} test quoted_unit st = (quoted_once, addLocale {} test nihao st)"
  by (simp add: interpolation_pass_def quoted_unit_def quoted_once_def char_defs class_defs match_defs
      interpolation_callback_def quoted_callback_def translation_key_def targetModule_def)

lemma quoted_once_attribute: "attribute_pass ext {} test quoted_once st = (quoted_once, st)"
  by (simp add: attribute_pass_def quoted_once_def char_defs class_defs match_attr_def)

lemma quoted_once_text: "tag_text_pass {} test quoted_once st = (quoted_once, st)"
  by (simp add: tag_text_pass_def quoted_once_def char_defs class_defs match_defs
      tag_text_callback_def filter_Boolean_def text_part_def)

lemma quoted_once_interpolation:
  "interpolation_pass {} test quoted_once st = (quoted_twice, addLocale {} test (tashuo @ js ''$t('') st)"
  by (simp add: interpolation_pass_def quoted_once_def quoted_twice_def char_defs class_defs match_defs
      interpolation_callback_def quoted_callback_def translation_key_def targetModule_def)

lemma quoted_twice_text: "tag_text_pass {} test quoted_twice st = (quoted_twice, st)"
  by (simp add: tag_text_pass_def quoted_twice_def char_defs class_defs match_defs
      tag_text_callback_def filter_Boolean_def text_part_def)

text \<open>
  Claim C1. Running the markup rewriter on its own output: the template
  \<^verbatim>\<open><p>{{ '\u4ed6\u8bf4"\u4f60\u597d"' }}</p>\<close> (a single-quoted string with a double-quoted
  phrase in it) becomes \<^verbatim>\<open><p>{{ '\u4ed6\u8bf4$t('test.\u4f60\u597d')' }}</p>\<close>, and a second
  run turns that into \<^verbatim>\<open><p>{{ $t('test.\u4ed6\u8bf4$t(')test.\u4f60\u597d')' }}</p>\<close> and
  records the new key \<^verbatim>\<open>\u4ed6\u8bf4$t(\<close>, for every parser and generator and from every
  state.
\<close>

theorem second_run_rewraps:
  "transformTemplate ext {} quoted_unit test st = (quoted_once, addLocale {} test nihao st)
   \<and> transformTemplate ext {} quoted_once test st' =
       (quoted_twice, addLocale {} test (tashuo @ js ''$t('') st')
   \<and> quoted_twice \<noteq> quoted_once
   \<and> localeMap (addLocale {} test nihao st0) = [(test, [(nihao, nihao)])]
   \<and> localeMap (addLocale {} test (tashuo @ js ''$t('') st0) =
       [(test, [(tashuo @ js ''$t('', tashuo @ js ''$t('')])]"
proof -
  have r1: "transformTemplate ext {} quoted_unit test st = (quoted_once, addLocale {} test nihao st)"
    by (simp add: transformTemplate_def quoted_unit_attribute quoted_unit_text
        quoted_unit_interpolation quoted_once_text)
  have r2: "transformTemplate ext {} quoted_once test st' =
       (quoted_twice, addLocale {} test (tashuo @ js ''$t('') st')"
    by (simp add: transformTemplate_def quoted_once_attribute quoted_once_text
        quoted_once_interpolation quoted_twice_text)
  have ne: "quoted_twice \<noteq> quoted_once"
    by (simp add: quoted_once_def quoted_twice_def char_defs)
  have ti: "\<not> inherited test"
    by (simp add: inherited_def test_def object_prototype_keys_def js_def)
  have l1: "localeMap (addLocale {} test nihao st0) = [(test, [(nihao, nihao)])]"
    using ti by (simp add: addLocale_def addLocaleMap_def targetModule_def st0_def obj_set_def
        table_add_def truthy_entry_def inherited_def nihao_def object_prototype_keys_def js_def)
  have l2: "localeMap (addLocale {} test (tashuo @ js ''$t('') st0) =
       [(test, [(tashuo @ js ''$t('', tashuo @ js ''$t('')])]"
    using ti by (simp add: addLocale_def addLocaleMap_def targetModule_def st0_def obj_set_def
        table_add_def truthy_entry_def inherited_def tashuo_def object_prototype_keys_def js_def)
  show ?thesis using r1 r2 ne l1 l2 by simp
qed

section \<open>Template literals\<close>

text \<open>The original expressions are kept, in their order (all of them, as a template
  literal has one static element more than it has expressions).\<close>

lemma originals_simps:
  "originals [] = []" "originals (es @ [Inl c]) = originals es" "originals (es @ [Inr x]) = originals es @ [x]"
  "originals (map Inr xs) = xs"
  by (simp_all add: originals_def map_filter_def filter_map comp_def)

lemma flushPendingQuasi_originals: "tl_originals (flushPendingQuasi acc) = tl_originals acc"
  by (auto simp add: flushPendingQuasi_def tl_originals_def split: prod.splits)

lemma tl_segment_originals:
  "tl_originals (tl_segment cw moduleName (\<lambda>s. Inl (f s)) segment acc) = tl_originals acc"
proof (cases "zhReg_test segment")
  case True
  obtain nq ne pend st where r: "flushPendingQuasi acc = (nq, ne, pend, st)" by (metis prod_cases4)
  have "originals ne = tl_originals acc"
    using flushPendingQuasi_originals [of acc] r by (simp add: tl_originals_def)
  then show ?thesis using True r by (simp add: tl_segment_def tl_originals_def originals_simps)
next
  case False
  then show ?thesis by (auto simp add: tl_segment_def tl_originals_def split: prod.splits)
qed

lemma fold_tl_segment_originals:
  "tl_originals (fold (tl_segment cw moduleName (\<lambda>s. Inl (f s))) segments acc) = tl_originals acc"
  by (induction segments arbitrary: acc) (simp_all add: tl_segment_originals)

lemma tl_loop_originals:
  "tl_originals (tl_loop cw moduleName (\<lambda>s. Inl (f s)) quasis (map Inr xs) acc)
     = tl_originals acc @ take (length quasis) xs"
proof (induction quasis arbitrary: xs acc)
  case Nil
  then show ?case by simp
next
  case (Cons q quasis)
  let ?a = "flushPendingQuasi (fold (tl_segment cw moduleName (\<lambda>s. Inl (f s))) (split_zh (raw q)) acc)"
  obtain nq ne pend st where r: "?a = (nq, ne, pend, st)" by (metis prod_cases4)
  have o: "originals ne = tl_originals acc"
    using flushPendingQuasi_originals [of "fold (tl_segment cw moduleName (\<lambda>s. Inl (f s))) (split_zh (raw q)) acc"]
      fold_tl_segment_originals [of cw moduleName f "split_zh (raw q)" acc] r
    by (simp add: tl_originals_def)
  show ?case
  proof (cases xs)
    case Nil
    then show ?thesis
      using r o Cons.IH [of "[]" "(nq, ne, pend, st)"] by (simp add: tl_originals_def)
  next
    case (Cons x xs')
    then show ?thesis
      using r o Cons.IH [of xs' "(nq @ [emptyQuasi], ne @ [Inr x], pend, st)"]
      by (simp add: tl_originals_def originals_simps)
  qed
qed

lemma rewriteTemplateLiteral_originals:
  "originals (fst (snd (rewriteTemplateLiteral cw moduleName (\<lambda>s. Inl (f s)) quasis (map Inr xs) st)))
     = take (length quasis) xs"
  using tl_loop_originals [of cw moduleName f quasis xs "([], [], [], st)"]
  by (auto simp add: rewriteTemplateLiteral_def tl_originals_def originals_simps split: prod.splits)

lemma split_zh_mixed: "split_zh (js ''a'' @ nihao @ js ''b'') = [js ''a'', nihao, js ''b'']"
  by (simp add: split_zh_def filter_Boolean_def match_zh_run_def is_zh_def char_defs)

lemma split_zh_prefix: "split_zh (js ''a'' @ nihao) = [js ''a'', nihao]"
  by (simp add: split_zh_def filter_Boolean_def match_zh_run_def is_zh_def char_defs)

lemma split_zh_plain: "split_zh (js ''b'') = [js ''b'']"
  by (simp add: split_zh_def filter_Boolean_def match_zh_run_def is_zh_def char_defs)

lemma zh_tests: "\<not> zhReg_test (js ''a'')" "zhReg_test nihao" "\<not> zhReg_test (js ''b'')"
  "zhReg_test (js ''a'' @ nihao @ js ''b'')" "zhReg_test (js ''a'' @ nihao)"
  by (simp_all add: zhReg_test_def is_zh_def char_defs)

lemma js_nonempty: "js ''a'' \<noteq> []" "js ''b'' \<noteq> []"
  by (simp_all add: js_def)

lemma rewrite_mixed:
  "rewriteTemplateLiteral cw moduleName mk [mixed_quasi] [] st =
     ([TemplateElement (js ''a'') (js ''a'') False, emptyQuasi, TemplateElement (js ''b'') (js ''b'') True],
      [mk nihao], addLocale cw moduleName nihao st)"
  by (simp add: rewriteTemplateLiteral_def mixed_quasi_def split_zh_mixed tl_segment_def zh_tests
      flushPendingQuasi_def js_nonempty mark_tail_def pad_quasis_def emptyQuasi_def)

lemma rewrite_prefix:
  "rewriteTemplateLiteral cw moduleName mk
     [TemplateElement (js ''a'' @ nihao) (js ''a'' @ nihao) False, TemplateElement (js ''b'') (js ''b'') True]
     [x] st =
     ([TemplateElement (js ''a'') (js ''a'') False, emptyQuasi, emptyQuasi,
       TemplateElement (js ''b'') (js ''b'') True],
      [mk nihao, x], addLocale cw moduleName nihao st)"
  by (simp add: rewriteTemplateLiteral_def split_zh_prefix split_zh_plain tl_segment_def zh_tests
      flushPendingQuasi_def js_nonempty mark_tail_def pad_quasis_def emptyQuasi_def)

text \<open>
  Claim C2, at the template literals \<^verbatim>\<open>`a\u4f60\u597db`\<close> and \<^verbatim>\<open>`a\u4f60\u597d${x}b`\<close>. For the
  first the visitor builds three static elements for one expression, for the second four
  static elements for two expressions (the original expression \<^verbatim>\<open>x\<close> is kept, after
  the call). No node comes of it: \<^verbatim>\<open>t.templateLiteral\<close> throws on these lists, so the
  traversal ends with a \<^verbatim>\<open>TypeError\<close>, wherever the literal stands, and
  \<^verbatim>\<open>transformScript\<close> on a script that is the first literal returns the error and no
  text, with \<^verbatim>\<open>\u4f60\u597d\<close> already recorded.
\<close>

theorem template_literal_quasi_count:
  "rewriteTemplateLiteral {} test (\<lambda>segment. getTCallExpression {} segment test) [mixed_quasi] [] st0 =
     ([TemplateElement (js ''a'') (js ''a'') False, emptyQuasi, TemplateElement (js ''b'') (js ''b'') True],
      [getTCallExpression {} nihao test],
      addLocale {} test nihao st0)
   \<and> length (fst (rewriteTemplateLiteral {} test (\<lambda>segment. getTCallExpression {} segment test)
                    [mixed_quasi] [] st0))
       = length (fst (snd (rewriteTemplateLiteral {} test (\<lambda>segment. getTCallExpression {} segment test)
                    [mixed_quasi] [] st0))) + 2
   \<and> traverse_node True ext {} test parent key inT (TemplateLiteral [mixed_quasi] [] False) st0 =
       (Inl TypeError, addLocale {} test nihao st0)
   \<and> transformScript mixed_parser {} mixed_script test st0 = (Inl TypeError, addLocale {} test nihao st0)
   \<and> rewriteTemplateLiteral {} test (\<lambda>segment. getTCallExpression {} segment test)
       [TemplateElement (js ''a'' @ nihao) (js ''a'' @ nihao) False, TemplateElement (js ''b'') (js ''b'') True]
       [Identifier (js ''x'')] st0 =
     ([TemplateElement (js ''a'') (js ''a'') False, emptyQuasi, emptyQuasi,
       TemplateElement (js ''b'') (js ''b'') True],
      [getTCallExpression {} nihao test, Identifier (js ''x'')],
      addLocale {} test nihao st0)
   \<and> traverse_node True ext {} test parent key inT
       (TemplateLiteral
          [TemplateElement (js ''a'' @ nihao) (js ''a'' @ nihao) False, TemplateElement (js ''b'') (js ''b'') True]
          [Identifier (js ''x'')] False) st0 =
       (Inl TypeError, addLocale {} test nihao st0)"
proof -
  let ?mk = "\<lambda>segment. getTCallExpression {} segment test"
  have c1: "rewriteTemplateLiteral {} test ?mk [mixed_quasi] [] st0 =
     ([TemplateElement (js ''a'') (js ''a'') False, emptyQuasi, TemplateElement (js ''b'') (js ''b'') True],
      [getTCallExpression {} nihao test],
      addLocale {} test nihao st0)"
    by (rule rewrite_mixed)
  have c2: "length (fst (rewriteTemplateLiteral {} test ?mk [mixed_quasi] [] st0))
       = length (fst (snd (rewriteTemplateLiteral {} test ?mk [mixed_quasi] [] st0))) + 2"
    by (simp add: c1)
  have z: "zhReg_test (raw mixed_quasi)"
    by (simp add: mixed_quasi_def zh_tests)
  have c3: "traverse_node True ext {} test parent key inT (TemplateLiteral [mixed_quasi] [] False) st0 =
       (Inl TypeError, addLocale {} test nihao st0)"
    by (simp add: rewrite_mixed z)
  have c4: "transformScript mixed_parser {} mixed_script test st0 =
       (Inl TypeError, addLocale {} test nihao st0)"
    by (simp add: transformScript_def mixed_parser_def traverse_def rewrite_mixed z)
  have c5: "rewriteTemplateLiteral {} test ?mk
       [TemplateElement (js ''a'' @ nihao) (js ''a'' @ nihao) False, TemplateElement (js ''b'') (js ''b'') True]
       [Identifier (js ''x'')] st0 =
     ([TemplateElement (js ''a'') (js ''a'') False, emptyQuasi, emptyQuasi,
       TemplateElement (js ''b'') (js ''b'') True],
      [getTCallExpression {} nihao test, Identifier (js ''x'')],
      addLocale {} test nihao st0)"
    by (rule rewrite_prefix)
  have c6: "traverse_node True ext {} test parent key inT
       (TemplateLiteral
          [TemplateElement (js ''a'' @ nihao) (js ''a'' @ nihao) False, TemplateElement (js ''b'') (js ''b'') True]
          [Identifier (js ''x'')] False) st0 =
       (Inl TypeError, addLocale {} test nihao st0)"
    by (simp add: rewrite_prefix zh_tests)
  show ?thesis
    by (intro conjI c1 c2 c3 c4 c5 c6)
qed

section \<open>Combined units\<close>

lemma dropWhile_space_core: "list_all is_space a \<Longrightarrow> xs \<noteq> [] \<Longrightarrow> \<not> is_space (hd xs) \<Longrightarrow>
  dropWhile is_space (a @ xs) = xs"
  by (induction a) (auto simp add: neq_Nil_conv)

lemma trim_core:
  assumes "list_all is_space a" and "list_all is_space b" and "xs \<noteq> []"
    and "\<not> is_space (hd xs)" and "\<not> is_space (last xs)"
  shows "trim (a @ xs @ b) = xs"
proof -
  have 1: "dropWhile is_space (a @ xs @ b) = xs @ b"
    using dropWhile_space_core [OF assms(1), of "xs @ b"] assms(3,4) by simp
  have 2: "dropWhile is_space (rev b @ rev xs) = rev xs"
    using dropWhile_space_core [of "rev b" "rev xs"] assms(2,3,5)
    by (simp add: hd_rev list_all_iff)
  show ?thesis by (simp add: trim_def 1 2)
qed

lemma last_style_region: "last (style_region s) = 0x3E"
  by (simp add: style_region_def js_def)

lemma style_region_nonempty: "style_region s \<noteq> []"
  by (simp add: style_region_def js_def)

lemma last_join:
  "xs \<noteq> [] \<Longrightarrow> \<forall>x \<in> set xs. x \<noteq> [] \<and> last x = c \<Longrightarrow> join xs sep \<noteq> [] \<and> last (join xs sep) = c"
  by (induction xs sep rule: join.induct) auto

lemma last_styles_tail:
  "last (js ''</template>'' @ styles_tail style_blocks) = 0x3E"
proof (cases "style_blocks = []")
  case True
  then show ?thesis by (simp add: styles_tail_def js_def)
next
  case False
  then have "join (map style_region style_blocks) nl \<noteq> []
      \<and> last (join (map style_region style_blocks) nl) = 0x3E"
    using last_join [of "map style_region style_blocks" "0x3E" nl]
    by (simp add: last_style_region style_region_nonempty)
  with False show ?thesis by (simp add: styles_tail_def)
qed

lemma newContent_shape:
  "newContent newScript newTemplate style_blocks =
     script_open @ nl @ newScript @ nl @ js ''</script>'' @ nl @ js ''<template>'' @ nl
       @ newTemplate @ nl @ js ''</template>'' @ styles_tail style_blocks"
proof -
  let ?core = "script_open @ nl @ newScript @ nl @ js ''</script>'' @ nl @ js ''<template>'' @ nl
       @ newTemplate @ nl @ js ''</template>'' @ styles_tail style_blocks"
  have sp: "list_all is_space nl" "list_all is_space (nl @ nl)"
    by (simp_all add: nl_def is_space_def)
  have ne: "?core \<noteq> []" by (simp add: script_open_def js_def)
  have h: "\<not> is_space (hd ?core)" by (simp add: script_open_def js_def is_space_def)
  have "last ?core = last (js ''</template>'' @ styles_tail style_blocks)"
    by (simp add: js_def)
  then have l: "\<not> is_space (last ?core)"
    by (simp add: last_styles_tail is_space_def)
  show ?thesis
  proof (cases "style_blocks = []")
    case True
    have "newContent newScript newTemplate style_blocks = trim (nl @ ?core @ (nl @ nl))"
      using True by (simp add: newContent_def script_open_def styles_tail_def)
    then show ?thesis using trim_core [OF sp(1) sp(2) ne h l] by simp
  next
    case False
    have "newContent newScript newTemplate style_blocks = trim (nl @ ?core @ nl)"
      using False by (simp add: newContent_def script_open_def styles_tail_def)
    then show ?thesis using trim_core [OF sp(1) sp(1) ne h l] by simp
  qed
qed

lemma includes_str_append: "includes_str (a @ p @ c) p"
proof (induction a)
  case Nil
  show ?case
  proof (cases "p @ c")
    case Nil
    then show ?thesis by simp
  next
    case (Cons x xs)
    have "startsWith (p @ c) p" by (simp add: startsWith_def)
    then have "includes_str (p @ c) p" unfolding Cons by simp
    then show ?thesis by simp
  qed
next
  case (Cons x a)
  then show ?case by simp
qed

lemma join_member: "s \<in> set xs \<Longrightarrow> \<exists>a c. join xs sep = a @ s @ c"
proof (induction xs sep rule: join.induct)
  case (1 sep)
  then show ?case by simp
next
  case (2 x sep)
  then have "join [x] sep = [] @ s @ []" by simp
  then show ?case by blast
next
  case (3 x y ys sep)
  show ?case
  proof (cases "s = x")
    case True
    then have "join (x # y # ys) sep = [] @ s @ (sep @ join (y # ys) sep)" by simp
    then show ?thesis by blast
  next
    case False
    with 3 obtain a c where "join (y # ys) sep = a @ s @ c" by auto
    then have "join (x # y # ys) sep = (x @ sep @ a) @ s @ c" by simp
    then show ?thesis by blast
  qed
qed

lemma newContent_includes_style:
  assumes "s \<in> set style_blocks"
  shows "includes_str (newContent newScript newTemplate style_blocks) (style_region s)"
proof -
  from assms have "style_region s \<in> set (map style_region style_blocks)" by simp
  then obtain a c where j: "join (map style_region style_blocks) nl = a @ style_region s @ c"
    using join_member by blast
  from assms have ne: "style_blocks \<noteq> []" by auto
  have "newContent newScript newTemplate style_blocks =
      (script_open @ nl @ newScript @ nl @ js ''</script>'' @ nl @ js ''<template>'' @ nl
       @ newTemplate @ nl @ js ''</template>'' @ nl @ a) @ style_region s @ c"
    using ne by (simp add: newContent_shape styles_tail_def j)
  then show ?thesis by (simp only: includes_str_append)
qed

lemma processVueFile_output:
  assumes "processVueFile ext parseSFC cw srcContent moduleName st = (Inr out, st')"
  shows "\<exists>newScript newTemplate.
           out = newContent newScript newTemplate (styles (parseSFC srcContent))
           \<and> (block_content (scriptSetup (parseSFC srcContent)) = [] \<and> newScript = []
                \<or> (\<exists>st1. fst (transformScript ext cw (block_content (scriptSetup (parseSFC srcContent)))
                              moduleName st1) = Inr newScript))"
  using assms
  by (auto simp add: processVueFile_def Let_def split: prod.splits sum.splits if_splits)
     (metis fst_conv)+

lemma module_unit_processed:
  "processVueFile rejecting module_parser {} module_unit test st0 = (Inr module_output, st0)"
  by (simp add: processVueFile_def module_parser_def module_descriptor_def block_content_def
      newContent_shape styles_tail_def style_region_def module_output_def js_def)

lemma module_output_no_module: "\<not> includes_str module_output (js ''module'')"
  by (simp add: module_output_def script_open_def char_defs startsWith_def)

text \<open>
  Claim C9, as stated: for the unit \<^verbatim>\<open><style module>\<close> \<open>\<dots>\<close> \<^verbatim>\<open></style>\<close>, whose style block
  has the attribute \<^verbatim>\<open>module\<close>, the text written does not contain \<^verbatim>\<open>module\<close> at all.
\<close>

theorem style_attribute_dropped:
  "styles (module_parser module_unit) =
     [\<lparr>content = nl @ js ''.a{}'' @ nl, attrs = [(js ''module'', AttrTrue)], lang = None, scoped = False\<rparr>]
   \<and> processVueFile rejecting module_parser {} module_unit test st0 = (Inr module_output, st0)
   \<and> \<not> includes_str module_output (js ''module'')"
  by (simp add: module_unit_processed module_output_no_module)
     (simp add: module_parser_def module_descriptor_def)

text \<open>
  Claim C9, amended. Every unit that is written ends with the style regions of the
  input, in their order and with line breaks between them, each rebuilt as \<^verbatim>\<open><style\<close>,
  then \<^verbatim>\<open> scoped\<close> when the block is scoped, then \<^verbatim>\<open> lang="<lang>"\<close> when it has a
  non-empty \<^verbatim>\<open>lang\<close>, then \<^verbatim>\<open>>\<close>, a line break, the content of the block byte for byte, a
  line break and \<^verbatim>\<open></style>\<close>. No other attribute of the block is written.
\<close>

theorem style_regions_rebuilt:
  assumes "processVueFile ext parseSFC cw srcContent moduleName st = (Inr out, st')"
  shows "(\<exists>pre. out = pre @ js ''</template>''
            @ (if styles (parseSFC srcContent) = [] then []
               else nl @ join (map style_region (styles (parseSFC srcContent))) nl))
     \<and> (\<forall>s \<in> set (styles (parseSFC srcContent)).
           style_region s =
             js ''<style'' @ (if scoped s then js '' scoped'' else [])
             @ (case lang s of
                  None \<Rightarrow> []
                | Some l \<Rightarrow> if l = [] then [] else js '' lang='' @ [dquote] @ l @ [dquote])
             @ js ''>'' @ nl @ content s @ nl @ js ''</style>''
           \<and> includes_str out (style_region s))"
proof -
  from processVueFile_output [OF assms] obtain newScript newTemplate
    where o: "out = newContent newScript newTemplate (styles (parseSFC srcContent))" by blast
  let ?pre = "script_open @ nl @ newScript @ nl @ js ''</script>'' @ nl @ js ''<template>'' @ nl
       @ newTemplate @ nl"
  have e: "out = ?pre @ js ''</template>''
            @ (if styles (parseSFC srcContent) = [] then []
               else nl @ join (map style_region (styles (parseSFC srcContent))) nl)"
    unfolding o newContent_shape styles_tail_def by simp
  have 1: "\<exists>pre. out = pre @ js ''</template>''
            @ (if styles (parseSFC srcContent) = [] then []
               else nl @ join (map style_region (styles (parseSFC srcContent))) nl)"
    using e by (rule exI [where x = ?pre])
  have 2: "includes_str out (style_region s)" if "s \<in> set (styles (parseSFC srcContent))" for s
    unfolding o using that by (rule newContent_includes_style)
  show ?thesis using 1 2 by (simp add: style_region_def)
qed

theorem style_regions_rebuilt_witness:
  "processVueFile rejecting module_parser {} module_unit test st0 = (Inr module_output, st0)
   \<and> styles (module_parser module_unit) =
       [\<lparr>content = nl @ js ''.a{}'' @ nl, attrs = [(js ''module'', AttrTrue)], lang = None, scoped = False\<rparr>]
   \<and> includes_str module_output
        (js ''<style>'' @ nl @ (nl @ js ''.a{}'' @ nl) @ nl @ js ''</style>'')"
proof -
  have s: "styles (module_parser module_unit) =
       [\<lparr>content = nl @ js ''.a{}'' @ nl, attrs = [(js ''module'', AttrTrue)], lang = None, scoped = False\<rparr>]"
    by (simp add: module_parser_def module_descriptor_def)
  from style_regions_rebuilt [OF module_unit_processed]
  have "\<forall>s \<in> set (styles (module_parser module_unit)). includes_str module_output (style_region s)"
    by blast
  then have "includes_str module_output
        (js ''<style>'' @ nl @ (nl @ js ''.a{}'' @ nl) @ nl @ js ''</style>'')"
    unfolding s by (simp add: style_region_def js_def)
  then show ?thesis using s by (simp add: module_unit_processed)
qed

lemma two_scripts_processed:
  "processVueFile echo two_scripts_parser {} two_scripts_unit test st0 = (Inr two_scripts_output, st0)"
  by (simp add: processVueFile_def two_scripts_parser_def two_scripts_descriptor_def block_content_def
      newContent_shape styles_tail_def two_scripts_output_def transformScript_def echo_def
      traverse_def js_def)

text \<open>
  Claim C10. Every unit that is written starts with the fixed tag
  \<^verbatim>\<open><script setup lang="ts">\<close>, followed by the transformed content of the setup script
  (nothing when there is none), its closing tag, the template region and the style
  regions; and the result is the same whatever the non-setup script block of the input
  is and whatever attributes and \<^verbatim>\<open>lang\<close> the setup script block has.
\<close>

theorem script_region_fixed:
  assumes "processVueFile ext parseSFC cw srcContent moduleName st = (Inr out, st')"
  shows "(\<exists>newScript newTemplate.
            out = js ''<script setup lang='' @ [dquote] @ js ''ts'' @ [dquote] @ js ''>'' @ nl
                  @ newScript @ nl @ js ''</script>'' @ nl @ js ''<template>'' @ nl
                  @ newTemplate @ nl @ js ''</template>'' @ styles_tail (styles (parseSFC srcContent))
            \<and> (block_content (scriptSetup (parseSFC srcContent)) = [] \<and> newScript = []
                 \<or> (\<exists>st1. fst (transformScript ext cw
                                  (block_content (scriptSetup (parseSFC srcContent))) moduleName st1)
                           = Inr newScript)))
     \<and> processVueFile ext (\<lambda>c. (parseSFC c)\<lparr>script := other\<rparr>) cw srcContent moduleName st
         = (Inr out, st')
     \<and> processVueFile ext
         (\<lambda>c. (parseSFC c)\<lparr>scriptSetup :=
                 map_option (\<lambda>b. b\<lparr>attrs := a, lang := l\<rparr>) (scriptSetup (parseSFC c))\<rparr>)
         cw srcContent moduleName st
         = (Inr out, st')"
proof -
  have 1: "\<exists>newScript newTemplate.
            out = js ''<script setup lang='' @ [dquote] @ js ''ts'' @ [dquote] @ js ''>'' @ nl
                  @ newScript @ nl @ js ''</script>'' @ nl @ js ''<template>'' @ nl
                  @ newTemplate @ nl @ js ''</template>'' @ styles_tail (styles (parseSFC srcContent))
            \<and> (block_content (scriptSetup (parseSFC srcContent)) = [] \<and> newScript = []
                 \<or> (\<exists>st1. fst (transformScript ext cw
                                  (block_content (scriptSetup (parseSFC srcContent))) moduleName st1)
                           = Inr newScript))"
    using processVueFile_output [OF assms]
    by (simp add: newContent_shape script_open_def)
  have 2: "processVueFile ext (\<lambda>c. (parseSFC c)\<lparr>script := other\<rparr>) cw srcContent moduleName st
         = processVueFile ext parseSFC cw srcContent moduleName st"
    by (simp add: processVueFile_def Let_def split: prod.splits sum.splits)
  have b: "block_content (map_option (\<lambda>b. b\<lparr>attrs := a, lang := l\<rparr>) blk) = block_content blk" for blk
    by (cases blk) (simp_all add: block_content_def)
  have 3: "processVueFile ext
         (\<lambda>c. (parseSFC c)\<lparr>scriptSetup :=
                 map_option (\<lambda>b. b\<lparr>attrs := a, lang := l\<rparr>) (scriptSetup (parseSFC c))\<rparr>)
         cw srcContent moduleName st
         = processVueFile ext parseSFC cw srcContent moduleName st"
    by (simp add: processVueFile_def Let_def b split: prod.splits sum.splits)
  show ?thesis using 1 2 3 assms by simp
qed

theorem script_region_fixed_witness:
  "processVueFile echo two_scripts_parser {} two_scripts_unit test st0 = (Inr two_scripts_output, st0)
   \<and> two_scripts_output = js ''<script setup lang='' @ [dquote] @ js ''ts'' @ [dquote] @ js ''>'' @ nl
        @ js ''const a = 1;'' @ nl @ js ''</script>'' @ nl @ js ''<template>'' @ nl @ nl
        @ js ''</template>''
   \<and> processVueFile echo (\<lambda>c. (two_scripts_parser c)\<lparr>script := None\<rparr>) {} two_scripts_unit test st0
        = (Inr two_scripts_output, st0)
   \<and> processVueFile echo
        (\<lambda>c. (two_scripts_parser c)\<lparr>scriptSetup :=
                map_option (\<lambda>b. b\<lparr>attrs := [], lang := None\<rparr>) (scriptSetup (two_scripts_parser c))\<rparr>)
        {} two_scripts_unit test st0
        = (Inr two_scripts_output, st0)"
proof -
  note t = script_region_fixed [OF two_scripts_processed, where other = None and a = "[]" and l = None]
  have o: "two_scripts_output = js ''<script setup lang='' @ [dquote] @ js ''ts'' @ [dquote] @ js ''>'' @ nl
        @ js ''const a = 1;'' @ nl @ js ''</script>'' @ nl @ js ''<template>'' @ nl @ nl
        @ js ''</template>''"
    by (simp add: two_scripts_output_def script_open_def)
  from t have "processVueFile echo (\<lambda>c. (two_scripts_parser c)\<lparr>script := None\<rparr>) {} two_scripts_unit test st0
        = (Inr two_scripts_output, st0)"
    and "processVueFile echo
        (\<lambda>c. (two_scripts_parser c)\<lparr>scriptSetup :=
                map_option (\<lambda>b. b\<lparr>attrs := [], lang := None\<rparr>) (scriptSetup (two_scripts_parser c))\<rparr>)
        {} two_scripts_unit test st0
        = (Inr two_scripts_output, st0)"
    by blast+
  then show ?thesis using two_scripts_processed o by blast
qed

end
